theory Spec2Isabelle
  imports Complex_Main
begin

section \<open>Arrays\<close>

text \<open>
  The model of \<^verbatim>\<open>logistic_model.py\<close> works on the arrays of the numerical library it
  calls. An array is a scalar (no axis), a vector (one axis) or a matrix (two axes, kept as
  its list of rows together with both dimensions, so that a matrix without rows still has a
  column count). The formulas of the methods are stated for arrays of mathematical reals,
  that is, for exact arithmetic. Where rounding, overflow to infinity or NaN decide a
  property (the values \<open>forward\<close> can return, the conversion to float32 of a saved file),
  the elements are the values of binary floating point defined below.
\<close>

datatype 'a ndarray = Arr0 'a | Arr1 "'a list" | Arr2 nat nat "'a list list"

datatype error = ValueError | AttributeError | TypeError | IOError

fun shape :: "'a ndarray \<Rightarrow> nat list" where
  "shape (Arr0 a) = []"
| "shape (Arr1 xs) = [length xs]"
| "shape (Arr2 r c A) = [r, c]"

text \<open>A matrix value is rectangular: \<open>r\<close> rows of \<open>c\<close> entries each.\<close>

fun wf_arr :: "'a ndarray \<Rightarrow> bool" where
  "wf_arr (Arr2 r c A) = (length A = r \<and> list_all (\<lambda>row. length row = c) A)"
| "wf_arr (Arr1 xs) = True"
| "wf_arr (Arr0 a) = True"

text \<open>The elements in storage order (row by row).\<close>

fun ravel :: "'a ndarray \<Rightarrow> 'a list" where
  "ravel (Arr0 a) = [a]"
| "ravel (Arr1 xs) = xs"
| "ravel (Arr2 r c A) = concat A"

definition col :: "nat \<Rightarrow> 'a list list \<Rightarrow> 'a list" where
  "col j A = map (\<lambda>row. row ! j) A"

text \<open>The attribute \<^verbatim>\<open>.T\<close>: a matrix is transposed, a vector or scalar is returned as it is.\<close>

fun np_T :: "'a ndarray \<Rightarrow> 'a ndarray" where
  "np_T (Arr2 r c A) = Arr2 c r (map (\<lambda>j. col j A) [0..<c])"
| "np_T (Arr1 xs) = Arr1 xs"
| "np_T (Arr0 a) = Arr0 a"

definition dotp :: "real list \<Rightarrow> real list \<Rightarrow> real" where
  "dotp xs ys = sum_list (map2 (*) xs ys)"

text \<open>
  \<^verbatim>\<open>np.dot\<close>: a scalar operand multiplies, two vectors give their inner product, a matrix
  operand gives the matrix product; the contracted dimensions must agree, otherwise the call
  raises ValueError.
\<close>

fun np_dot :: "real ndarray \<Rightarrow> real ndarray \<Rightarrow> error + real ndarray" where
  "np_dot (Arr0 a) y = Inr (map_ndarray (\<lambda>v. a * v) y)"
| "np_dot x (Arr0 b) = Inr (map_ndarray (\<lambda>v. v * b) x)"
| "np_dot (Arr1 xs) (Arr1 ys) =
     (if length xs = length ys then Inr (Arr0 (dotp xs ys)) else Inl ValueError)"
| "np_dot (Arr1 xs) (Arr2 r c B) =
     (if length xs = r then Inr (Arr1 (map (\<lambda>j. dotp xs (col j B)) [0..<c]))
      else Inl ValueError)"
| "np_dot (Arr2 r c A) (Arr1 ys) =
     (if c = length ys then Inr (Arr1 (map (\<lambda>row. dotp row ys) A)) else Inl ValueError)"
| "np_dot (Arr2 r c A) (Arr2 r' c' B) =
     (if c = r' then Inr (Arr2 r c' (map (\<lambda>row. map (\<lambda>j. dotp row (col j B)) [0..<c']) A))
      else Inl ValueError)"

text \<open>
  Broadcasting of an elementwise binary operation. Two dimensions are compatible when they
  are equal or one of them is 1; a dimension of 1 is stretched to the other. A vector meeting
  a matrix acts as a single row.
\<close>

definition bdim :: "nat \<Rightarrow> nat \<Rightarrow> nat option" where
  "bdim a b = (if a = b then Some a else if a = 1 then Some b else if b = 1 then Some a else None)"

definition stretch :: "nat \<Rightarrow> 'a list \<Rightarrow> 'a list" where
  "stretch n xs = (if length xs = n then xs else replicate n (hd xs))"

definition bcast2 ::
  "('a \<Rightarrow> 'b \<Rightarrow> 'c) \<Rightarrow> nat \<Rightarrow> nat \<Rightarrow> 'a list list \<Rightarrow> nat \<Rightarrow> nat \<Rightarrow> 'b list list \<Rightarrow> error + 'c ndarray"
  where
  "bcast2 f r c A r' c' B =
     (case bdim r r' of
        None \<Rightarrow> Inl ValueError
      | Some R \<Rightarrow>
          (case bdim c c' of
             None \<Rightarrow> Inl ValueError
           | Some C \<Rightarrow>
               Inr (Arr2 R C (map2 (\<lambda>a b. map2 f (stretch C a) (stretch C b))
                                (stretch R A) (stretch R B)))))"

fun bcast :: "('a \<Rightarrow> 'b \<Rightarrow> 'c) \<Rightarrow> 'a ndarray \<Rightarrow> 'b ndarray \<Rightarrow> error + 'c ndarray" where
  "bcast f (Arr0 a) y = Inr (map_ndarray (f a) y)"
| "bcast f x (Arr0 b) = Inr (map_ndarray (\<lambda>a. f a b) x)"
| "bcast f (Arr1 xs) (Arr1 ys) =
     (case bdim (length xs) (length ys) of
        None \<Rightarrow> Inl ValueError
      | Some n \<Rightarrow> Inr (Arr1 (map2 f (stretch n xs) (stretch n ys))))"
| "bcast f (Arr1 xs) (Arr2 r c B) = bcast2 f 1 (length xs) [xs] r c B"
| "bcast f (Arr2 r c A) (Arr1 ys) = bcast2 f r c A 1 (length ys) [ys]"
| "bcast f (Arr2 r c A) (Arr2 r' c' B) = bcast2 f r c A r' c' B"

text \<open>
  An in-place operation \<^verbatim>\<open>a -= b\<close> stores the broadcast result in \<open>a\<close>; it raises ValueError
  when that result does not have the shape of \<open>a\<close>.
\<close>

definition isub :: "real ndarray \<Rightarrow> real ndarray \<Rightarrow> error + real ndarray" where
  "isub a b =
     (case bcast (-) a b of
        Inl e \<Rightarrow> Inl e
      | Inr res \<Rightarrow> if shape res = shape a then Inr res else Inl ValueError)"

definition np_exp :: "real ndarray \<Rightarrow> real ndarray" where
  "np_exp x = map_ndarray exp x"

text \<open>
  \<^verbatim>\<open>np.zeros([k, 1])\<close>, \<^verbatim>\<open>np.ones([k, 1])\<close> and the two random generators build a matrix
  of \<open>k\<close> rows and one column; a negative \<open>k\<close> raises ValueError. The random generators are
  modelled by the sequence of values they draw, which is a parameter.
\<close>

definition np_zeros :: "int \<Rightarrow> error + real ndarray" where
  "np_zeros k = (if k < 0 then Inl ValueError else Inr (Arr2 (nat k) 1 (replicate (nat k) [0])))"

definition np_ones :: "int \<Rightarrow> error + real ndarray" where
  "np_ones k = (if k < 0 then Inl ValueError else Inr (Arr2 (nat k) 1 (replicate (nat k) [1])))"

definition np_random :: "(nat \<Rightarrow> real) \<Rightarrow> int \<Rightarrow> error + real ndarray" where
  "np_random draw k =
     (if k < 0 then Inl ValueError else Inr (Arr2 (nat k) 1 (map (\<lambda>i. [draw i]) [0..<nat k])))"

section \<open>Binary floating point\<close>

text \<open>
  Where a property turns on rounding or on infinities, array elements are values of binary
  floating point: a finite real, an infinity or NaN. (The two zeros are one value here.)
  \<open>round_fl p emin emax\<close> rounds a real to the format with \<open>p\<close> significand bits and
  exponents from \<open>emin\<close> to \<open>emax\<close>: to the nearest multiple of the unit in the last place
  at the magnitude of the argument, ties to the even multiple, with gradual underflow below
  \<open>2 ^ emin\<close> and overflow to an infinity when the rounded magnitude reaches
  \<open>2 ^ (emax + 1)\<close>.
\<close>

datatype fl = Fin real | PInf | NInf | NaN

definition rne :: "real \<Rightarrow> int" where
  "rne q =
     (let f = \<lfloor>q\<rfloor>; d = q - of_int f
      in if d < 1 / 2 then f else if 1 / 2 < d then f + 1 else if even f then f else f + 1)"

definition round_fl :: "nat \<Rightarrow> int \<Rightarrow> int \<Rightarrow> real \<Rightarrow> fl" where
  "round_fl p emin emax x =
     (if x = 0 then Fin 0
      else
        let e = max \<lfloor>log 2 \<bar>x\<bar>\<rfloor> emin;
            u = 2 powr of_int (e - int p + 1);
            r = of_int (rne (x / u)) * u
        in if \<bar>r\<bar> < 2 powr of_int (emax + 1) then Fin r
           else if 0 < x then PInf else NInf)"

definition binary32 :: "real \<Rightarrow> fl" where
  "binary32 x = round_fl 24 (- 126) 127 x"

definition binary64 :: "real \<Rightarrow> fl" where
  "binary64 x = round_fl 53 (- 1022) 1023 x"

text \<open>The conversion of an array element to float32.\<close>

fun float32 :: "fl \<Rightarrow> fl" where
  "float32 (Fin x) = binary32 x"
| "float32 PInf = PInf"
| "float32 NInf = NInf"
| "float32 NaN = NaN"

text \<open>The largest finite value of float32.\<close>

definition max_float32 :: real where
  "max_float32 = (2 ^ 24 - 1) * 2 ^ 104"

text \<open>
  The operations of binary64 that \<open>forward\<close> uses. Those of the arithmetic standard round
  their exact result; the library's exponential is taken to do the same. A quotient by zero
  is an infinity with the sign of the numerator (a warning, not an exception).
\<close>

fun fl_neg :: "fl \<Rightarrow> fl" where
  "fl_neg (Fin x) = Fin (- x)"
| "fl_neg PInf = NInf"
| "fl_neg NInf = PInf"
| "fl_neg NaN = NaN"

fun fl_exp :: "fl \<Rightarrow> fl" where
  "fl_exp (Fin x) = binary64 (exp x)"
| "fl_exp PInf = PInf"
| "fl_exp NInf = Fin 0"
| "fl_exp NaN = NaN"

fun fl_add :: "fl \<Rightarrow> fl \<Rightarrow> fl" where
  "fl_add (Fin x) (Fin y) = binary64 (x + y)"
| "fl_add NaN b = NaN"
| "fl_add a NaN = NaN"
| "fl_add PInf NInf = NaN"
| "fl_add NInf PInf = NaN"
| "fl_add PInf b = PInf"
| "fl_add a PInf = PInf"
| "fl_add NInf b = NInf"
| "fl_add a NInf = NInf"

definition inf_of_sign :: "real \<Rightarrow> fl" where
  "inf_of_sign x = (if x = 0 then NaN else if 0 < x then PInf else NInf)"

fun fl_mul :: "fl \<Rightarrow> fl \<Rightarrow> fl" where
  "fl_mul (Fin x) (Fin y) = binary64 (x * y)"
| "fl_mul NaN b = NaN"
| "fl_mul a NaN = NaN"
| "fl_mul (Fin x) PInf = inf_of_sign x"
| "fl_mul (Fin x) NInf = inf_of_sign (- x)"
| "fl_mul PInf (Fin y) = inf_of_sign y"
| "fl_mul NInf (Fin y) = inf_of_sign (- y)"
| "fl_mul PInf PInf = PInf"
| "fl_mul PInf NInf = NInf"
| "fl_mul NInf PInf = NInf"
| "fl_mul NInf NInf = PInf"

fun fl_div :: "fl \<Rightarrow> fl \<Rightarrow> fl" where
  "fl_div (Fin x) (Fin y) = (if y = 0 then inf_of_sign x else binary64 (x / y))"
| "fl_div NaN b = NaN"
| "fl_div a NaN = NaN"
| "fl_div (Fin x) PInf = Fin 0"
| "fl_div (Fin x) NInf = Fin 0"
| "fl_div PInf (Fin y) = (if 0 \<le> y then PInf else NInf)"
| "fl_div NInf (Fin y) = (if 0 \<le> y then NInf else PInf)"
| "fl_div PInf b = NaN"
| "fl_div NInf b = NaN"

text \<open>
  The inner product accumulates the rounded products from left to right. (The library does
  not fix the order of accumulation; the order plays no part where all partial sums are
  exact.) \<open>np_dot64\<close> is \<^verbatim>\<open>np.dot\<close> on arrays of binary64.
\<close>

definition dot64 :: "fl list \<Rightarrow> fl list \<Rightarrow> fl" where
  "dot64 xs ys = foldl (\<lambda>acc (x, y). fl_add acc (fl_mul x y)) (Fin 0) (zip xs ys)"

fun np_dot64 :: "fl ndarray \<Rightarrow> fl ndarray \<Rightarrow> error + fl ndarray" where
  "np_dot64 (Arr0 a) y = Inr (map_ndarray (\<lambda>v. fl_mul a v) y)"
| "np_dot64 x (Arr0 b) = Inr (map_ndarray (\<lambda>v. fl_mul v b) x)"
| "np_dot64 (Arr1 xs) (Arr1 ys) =
     (if length xs = length ys then Inr (Arr0 (dot64 xs ys)) else Inl ValueError)"
| "np_dot64 (Arr1 xs) (Arr2 r c B) =
     (if length xs = r then Inr (Arr1 (map (\<lambda>j. dot64 xs (col j B)) [0..<c]))
      else Inl ValueError)"
| "np_dot64 (Arr2 r c A) (Arr1 ys) =
     (if c = length ys then Inr (Arr1 (map (\<lambda>row. dot64 row ys) A)) else Inl ValueError)"
| "np_dot64 (Arr2 r c A) (Arr2 r' c' B) =
     (if c = r' then Inr (Arr2 r c' (map (\<lambda>row. map (\<lambda>j. dot64 row (col j B)) [0..<c']) A))
      else Inl ValueError)"

section \<open>The model object\<close>

text \<open>
  The fields of a \<^verbatim>\<open>LogisticModel\<close>, for arrays with elements of type \<open>'a\<close>: reals for
  the formulas, binary floating point where rounding matters. \<open>W\<close> is \<open>None\<close> until a
  weight array is assigned.
  Every method takes the object and, when it changes it, returns the changed object. What
  a method prints is returned as a list of events.
\<close>

record 'a model =
  ndims :: int
  W_init :: string
  W :: "'a ndarray option"

datatype event =
    Print_unknown_W_init string
  | Print_saved string
  | Print_loaded string
  | Print_iter int

definition with_W ::
  "real model \<Rightarrow> error + real ndarray \<Rightarrow> error + (real model \<times> event list)" where
  "with_W m r = (case r of Inl e \<Rightarrow> Inl e | Inr w \<Rightarrow> Inr (m\<lparr>W := Some w\<rparr>, []))"

text \<open>
  \<^verbatim>\<open>__init__(ndims, W_init)\<close>. \<open>uniform\<close> and \<open>gaussian\<close> are the values the two random
  generators draw (uniform on [0,1), and normal with mean 0 and scale 0.1).
\<close>

definition init ::
  "(nat \<Rightarrow> real) \<Rightarrow> (nat \<Rightarrow> real) \<Rightarrow> int \<Rightarrow> string \<Rightarrow> error + (real model \<times> event list)"
  where
  "init uniform gaussian nd wi =
     (let m = \<lparr>ndims = nd, W_init = wi, W = None\<rparr> in
      if wi = ''zeros'' then with_W m (np_zeros (ndims m + 1))
      else if wi = ''ones'' then with_W m (np_ones (ndims m + 1))
      else if wi = ''uniform'' then with_W m (np_random uniform (ndims m + 1))
      else if wi = ''gaussian'' then with_W m (np_random gaussian (ndims m + 1))
      else Inr (m, [Print_unknown_W_init wi]))"

subsection \<open>Weight files\<close>

text \<open>
  A weight file is the sequence of float32 values it holds. The file system maps a path to
  the contents of the file there, and says which paths can be written. \<open>astype\<close> takes the
  conversion to the type it is given the name of; \<open>save_model\<close> names float32, and works on
  arrays of binary floating point.
\<close>

record 'a filesys =
  files :: "string \<rightharpoonup> 'a list"
  writable :: "string \<Rightarrow> bool"

definition astype :: "('a \<Rightarrow> 'b) \<Rightarrow> 'a ndarray \<Rightarrow> 'b ndarray" where
  "astype conv a = map_ndarray conv a"

definition tofile :: "'a ndarray \<Rightarrow> string \<Rightarrow> 'a filesys \<Rightarrow> error + 'a filesys" where
  "tofile a p fs =
     (if writable fs p then Inr (fs\<lparr>files := (files fs)(p \<mapsto> ravel a)\<rparr>) else Inl IOError)"

definition np_fromfile :: "string \<Rightarrow> 'a filesys \<Rightarrow> error + 'a ndarray" where
  "np_fromfile p fs = (case files fs p of None \<Rightarrow> Inl IOError | Some vs \<Rightarrow> Inr (Arr1 vs))"

definition save_model ::
  "fl model \<Rightarrow> string \<Rightarrow> fl filesys \<Rightarrow> error + (fl filesys \<times> event list)" where
  "save_model m weight_file fs =
     (case W m of
        None \<Rightarrow> Inl AttributeError
      | Some w \<Rightarrow>
          (case tofile (astype float32 w) weight_file fs of
             Inl e \<Rightarrow> Inl e
           | Inr fs' \<Rightarrow> Inr (fs', [Print_saved weight_file])))"

definition load_model ::
  "'a model \<Rightarrow> string \<Rightarrow> 'a filesys \<Rightarrow> error + ('a model \<times> event list)" where
  "load_model m weight_file fs =
     (case np_fromfile weight_file fs of
        Inl e \<Rightarrow> Inl e
      | Inr w \<Rightarrow> Inr (m\<lparr>W := Some w\<rparr>, [Print_loaded weight_file]))"

subsection \<open>Inference and gradient\<close>

definition sigmoid :: "real ndarray \<Rightarrow> real ndarray" where
  "sigmoid x = map_ndarray (\<lambda>v. 1 / v) (map_ndarray (\<lambda>v. 1 + v) (np_exp (map_ndarray uminus x)))"

definition forward :: "real model \<Rightarrow> real ndarray \<Rightarrow> error + real ndarray" where
  "forward m X =
     (case W m of
        None \<Rightarrow> Inl AttributeError
      | Some w \<Rightarrow>
          (case np_dot (np_T w) (np_T X) of
             Inl e \<Rightarrow> Inl e
           | Inr D \<Rightarrow> Inr (sigmoid D)))"

definition backward :: "real model \<Rightarrow> real ndarray \<Rightarrow> real ndarray \<Rightarrow> error + real ndarray" where
  "backward m Y_true X =
     (case W m of
        None \<Rightarrow> Inl AttributeError
      | Some w \<Rightarrow>
          (case np_dot (np_T w) (np_T X) of
             Inl e \<Rightarrow> Inl e
           | Inr D \<Rightarrow>
               (case bcast (*) (map_ndarray uminus Y_true) D of
                  Inl e \<Rightarrow> Inl e
                | Inr YD \<Rightarrow>
                    (let E = np_exp YD in
                     case bcast (*) (map_ndarray uminus Y_true) E of
                       Inl e \<Rightarrow> Inl e
                     | Inr N \<Rightarrow>
                         (let D' = map_ndarray (\<lambda>v. 1 + v) E in
                          case bcast (/) N D' of
                            Inl e \<Rightarrow> Inl e
                          | Inr F \<Rightarrow> np_dot (np_T X) (np_T F))))))"

text \<open>
  \<^verbatim>\<open>(P > 0.5) * 2 - 1\<close>: the comparison gives a Boolean array, the product turns True into 2
  and False into 0, the subtraction gives the integer labels.
\<close>

definition classify :: "real model \<Rightarrow> real ndarray \<Rightarrow> error + int ndarray" where
  "classify m X =
     (case forward m X of
        Inl e \<Rightarrow> Inl e
      | Inr P \<Rightarrow>
          Inr (map_ndarray (\<lambda>v. v - 1)
                (map_ndarray (\<lambda>b. (if b then 1 else 0) * 2)
                  (map_ndarray (\<lambda>p. p > 1 / 2) P))))"

text \<open>\<open>sigmoid\<close> and \<open>forward\<close> with the arithmetic of binary64.\<close>

definition sigmoid64 :: "fl ndarray \<Rightarrow> fl ndarray" where
  "sigmoid64 x =
     map_ndarray (\<lambda>v. fl_div (Fin 1) v)
       (map_ndarray (\<lambda>v. fl_add (Fin 1) v) (map_ndarray fl_exp (map_ndarray fl_neg x)))"

definition forward64 :: "fl model \<Rightarrow> fl ndarray \<Rightarrow> error + fl ndarray" where
  "forward64 m X =
     (case W m of
        None \<Rightarrow> Inl AttributeError
      | Some w \<Rightarrow>
          (case np_dot64 (np_T w) (np_T X) of
             Inl e \<Rightarrow> Inl e
           | Inr D \<Rightarrow> Inr (sigmoid64 D)))"

subsection \<open>Training\<close>

text \<open>
  \<^verbatim>\<open>range(max_iters)\<close> is empty for a count that is zero or negative. The loop body takes
  the gradient, subtracts it in place and prints the counter. An exception leaves the loop
  at once; the object keeps the weights of the iterations completed before, so \<open>fit\<close>
  returns the object in every case, next to the exception if there was one.
\<close>

definition range_py :: "int \<Rightarrow> int list" where
  "range_py n = map int [0..<nat n]"

fun fit_loop ::
  "real ndarray \<Rightarrow> real ndarray \<Rightarrow> real \<Rightarrow> int list \<Rightarrow> real model \<Rightarrow> event list
     \<Rightarrow> error option \<times> real model \<times> event list" where
  "fit_loop Y_true X learn_rate [] m out = (None, m, out)"
| "fit_loop Y_true X learn_rate (i # rest) m out =
     (case backward m Y_true X of
        Inl e \<Rightarrow> (Some e, m, out)
      | Inr G \<Rightarrow>
          (case W m of
             None \<Rightarrow> (Some TypeError, m, out)
           | Some w \<Rightarrow>
               (case isub w (map_ndarray (\<lambda>g. g * learn_rate) G) of
                  Inl e \<Rightarrow> (Some e, m, out)
                | Inr w' \<Rightarrow>
                    fit_loop Y_true X learn_rate rest (m\<lparr>W := Some w'\<rparr>) (out @ [Print_iter i]))))"

definition fit ::
  "real model \<Rightarrow> real ndarray \<Rightarrow> real ndarray \<Rightarrow> real \<Rightarrow> int
     \<Rightarrow> error option \<times> real model \<times> event list" where
  "fit m Y_true X learn_rate max_iters = fit_loop Y_true X learn_rate (range_py max_iters) m []"

subsection \<open>The length of the weight array\<close>

text \<open>
  \<^verbatim>\<open>len(a)\<close> is the first dimension of an array; a scalar has no length. The data model's
  invariant says that \<open>W\<close> is set and has length \<open>ndims + 1\<close>.
\<close>

fun len_arr :: "'a ndarray \<Rightarrow> nat option" where
  "len_arr (Arr0 a) = None"
| "len_arr (Arr1 xs) = Some (length xs)"
| "len_arr (Arr2 r c A) = Some r"

definition W_inv :: "'a model \<Rightarrow> bool" where
  "W_inv m =
     (case W m of
        None \<Rightarrow> False
      | Some w \<Rightarrow> (case len_arr w of None \<Rightarrow> False | Some k \<Rightarrow> int k = ndims m + 1))"

section \<open>Shapes that fit\<close>

text \<open>
  The weights fit a feature matrix of \<open>c\<close> columns when they are the column of \<open>c\<close> rows that
  \<open>init\<close> builds, or the vector of \<open>c\<close> elements that \<open>load_model\<close> builds.
\<close>

fun weights_fit :: "real ndarray \<Rightarrow> nat \<Rightarrow> bool" where
  "weights_fit (Arr2 r k A) c = (r = c \<and> k = 1 \<and> wf_arr (Arr2 r k A))"
| "weights_fit (Arr1 ws) c = (length ws = c)"
| "weights_fit (Arr0 a) c = False"

text \<open>
  The list that \<open>backward\<close> builds from the labels \<open>ys\<close> and the scores \<open>ds\<close> by its
  elementwise operations: the exponentials, the numerators, the denominators, the quotients.
\<close>

definition contribs :: "real list \<Rightarrow> real list \<Rightarrow> real list" where
  "contribs ys ds =
     map2 (/) (map2 (*) (map uminus ys) (map exp (map2 (*) (map uminus ys) ds)))
              (map (\<lambda>v. 1 + v) (map exp (map2 (*) (map uminus ys) ds)))"

section \<open>The formulas of the specification\<close>

text \<open>
  These definitions follow the words of the specification, one sample at a time: the
  logistic function; for a sample \<open>x\<close> with label \<open>y\<close> the score \<open>D\<close>, the term \<open>E\<close> and the
  contribution \<open>F\<close>; the gradient, whose component \<open>j\<close> is the sum over the samples of
  feature \<open>j\<close> times the contribution; and one step of gradient descent.
\<close>

definition sigmoid_spec :: "real \<Rightarrow> real" where
  "sigmoid_spec x = 1 / (1 + exp (- x))"

definition score_spec :: "real list \<Rightarrow> real list \<Rightarrow> real" where
  "score_spec ws x = dotp ws x"

definition term_spec :: "real list \<Rightarrow> real list \<Rightarrow> real \<Rightarrow> real" where
  "term_spec ws x y = exp (- y * score_spec ws x)"

definition contrib_spec :: "real list \<Rightarrow> real list \<Rightarrow> real \<Rightarrow> real" where
  "contrib_spec ws x y = (- y * term_spec ws x y) / (1 + term_spec ws x y)"

definition gradient_spec :: "real list \<Rightarrow> real list list \<Rightarrow> real list \<Rightarrow> real list" where
  "gradient_spec ws rows ys =
     map (\<lambda>j. sum_list (map (\<lambda>i. rows ! i ! j * contrib_spec ws (rows ! i) (ys ! i))
                          [0..<length rows]))
         [0..<length ws]"

definition descent_spec :: "real \<Rightarrow> real list list \<Rightarrow> real list \<Rightarrow> real list \<Rightarrow> real list" where
  "descent_spec lr rows ys ws = map2 (\<lambda>w g. w - lr * g) ws (gradient_spec ws rows ys)"

section \<open>Basic facts about arrays\<close>

lemma ravel_map_ndarray: "ravel (map_ndarray f a) = map f (ravel a)"
  by (cases a) (simp_all add: map_concat)

lemma shape_map_ndarray: "shape (map_ndarray f a) = shape a"
  by (cases a) simp_all

lemma isub_shape: "isub a b = Inr a' \<Longrightarrow> shape a' = shape a"
  by (auto simp: isub_def split: sum.splits if_splits)

lemma len_arr_shape: "shape a = shape b \<Longrightarrow> len_arr a = len_arr b"
  by (cases a; cases b) auto

lemma weights_fit_len: "weights_fit w c \<Longrightarrow> len_arr w = Some c"
  by (cases w) auto

lemma map_nth_fun: "map (\<lambda>i. f (xs ! i)) [0..<length xs] = map f xs"
  by (rule nth_equalityI) simp_all

lemma col_transposed:
  assumes "list_all (\<lambda>row. length row = c) A" and "i < length A"
  shows "col i (map (\<lambda>j. col j A) [0..<c]) = A ! i"
proof -
  from assms have len: "length (A ! i) = c"
    by (simp add: list_all_length)
  show ?thesis
    by (rule nth_equalityI) (use assms len in \<open>simp_all add: col_def\<close>)
qed

lemma column_rows:
  assumes "list_all (\<lambda>row. length row = Suc 0) A"
  shows "map (\<lambda>v. [v]) (concat A) = A" and "col 0 A = concat A"
    and "length (concat A) = length A"
  using assms
proof (induction A)
  case Nil
  {
    case 1 show ?case by simp
  next
    case 2 show ?case by (simp add: col_def)
  next
    case 3 show ?case by simp
  }
next
  case (Cons a A)
  {
    case 1 then show ?case using Cons.IH(1) by (cases a) auto
  next
    case 2 then show ?case using Cons.IH(2) by (cases a) (auto simp: col_def)
  next
    case 3 then show ?case using Cons.IH(3) by (cases a) auto
  }
qed

lemma bcast_vec_row:
  "length ys = n \<Longrightarrow> length ds = n
     \<Longrightarrow> bcast f (Arr1 ys) (Arr2 1 n [ds]) = Inr (Arr2 1 n [map2 f ys ds])"
  by (simp add: bcast2_def bdim_def stretch_def)

lemma bcast_vec_vec:
  "length ys = length ds \<Longrightarrow> bcast f (Arr1 ys) (Arr1 ds) = Inr (Arr1 (map2 f ys ds))"
  by (simp add: bdim_def stretch_def)

lemma bcast_row_row:
  "length xs = n \<Longrightarrow> length ds = n
     \<Longrightarrow> bcast f (Arr2 1 n [xs]) (Arr2 1 n [ds]) = Inr (Arr2 1 n [map2 f xs ds])"
  by (simp add: bcast2_def bdim_def stretch_def)

section \<open>Facts about rounding\<close>

lemma rne_bounds: "\<bar>of_int (rne q) - q\<bar> \<le> 1 / 2"
proof -
  define d where "d = q - of_int \<lfloor>q\<rfloor>"
  have d: "0 \<le> d" "d < 1"
    unfolding d_def by linarith+
  have q: "q = of_int \<lfloor>q\<rfloor> + d"
    by (simp add: d_def)
  have "rne q = (if d < 1 / 2 then \<lfloor>q\<rfloor> else if 1 / 2 < d then \<lfloor>q\<rfloor> + 1
                 else if even \<lfloor>q\<rfloor> then \<lfloor>q\<rfloor> else \<lfloor>q\<rfloor> + 1)"
    by (simp add: rne_def Let_def d_def)
  then consider "rne q = \<lfloor>q\<rfloor>" "d \<le> 1 / 2" | "rne q = \<lfloor>q\<rfloor> + 1" "1 / 2 \<le> d"
    by (auto split: if_splits)
  then show ?thesis
  proof cases
    case 1
    have "of_int (rne q) - q = - d"
      unfolding 1(1) d_def by simp
    with d 1(2) show ?thesis by simp
  next
    case 2
    have "of_int (rne q) - q = 1 - d"
      unfolding 2(1) d_def by simp
    with d 2(2) show ?thesis by simp
  qed
qed

lemma rne_ge: "of_int k \<le> q \<Longrightarrow> k \<le> rne q"
proof -
  assume "of_int k \<le> q"
  then have "k \<le> \<lfloor>q\<rfloor>" by (simp add: le_floor_iff)
  then show ?thesis by (auto simp: rne_def Let_def)
qed

lemma rne_le: "q \<le> of_int k \<Longrightarrow> rne q \<le> k"
proof -
  assume le: "q \<le> of_int k"
  then have f: "\<lfloor>q\<rfloor> \<le> k" by (simp add: floor_le_iff)
  show ?thesis
  proof (cases "\<lfloor>q\<rfloor> = k")
    case True
    have "of_int \<lfloor>q\<rfloor> \<le> q" by linarith
    with True le have "q - of_int \<lfloor>q\<rfloor> = 0" by simp
    with True show ?thesis by (simp add: rne_def Let_def)
  next
    case False
    with f have "\<lfloor>q\<rfloor> + 1 \<le> k" by simp
    then show ?thesis by (auto simp: rne_def Let_def)
  qed
qed

lemma rne_near: "0 \<le> d \<Longrightarrow> d < 1 / 2 \<Longrightarrow> rne (of_int k + d) = k"
proof -
  assume d: "0 \<le> d" "d < 1 / 2"
  then have "\<lfloor>of_int k + d\<rfloor> = k"
    by (intro floor_unique) simp_all
  with d show ?thesis by (simp add: rne_def Let_def)
qed

lemma floor_log2_bounds:
  assumes "0 < y"
  shows "2 powr of_int \<lfloor>log 2 y\<rfloor> \<le> y" and "y < 2 powr of_int (\<lfloor>log 2 y\<rfloor> + 1)"
proof -
  have y: "2 powr log 2 y = y"
    using assms by simp
  have "2 powr of_int \<lfloor>log 2 y\<rfloor> \<le> 2 powr log 2 y"
    by (intro powr_mono) simp_all
  then show "2 powr of_int \<lfloor>log 2 y\<rfloor> \<le> y"
    unfolding y .
  have "log 2 y < of_int (\<lfloor>log 2 y\<rfloor> + 1)"
    by simp
  then have "2 powr log 2 y < 2 powr of_int (\<lfloor>log 2 y\<rfloor> + 1)"
    by (intro powr_less_mono) simp_all
  then show "y < 2 powr of_int (\<lfloor>log 2 y\<rfloor> + 1)"
    unfolding y .
qed

lemma floor_log2_eq:
  assumes "2 powr of_int e \<le> y" and "y < 2 powr of_int (e + 1)"
  shows "\<lfloor>log 2 y\<rfloor> = e"
proof -
  have pos: "0 < y"
    using assms(1) powr_gt_zero [of 2 "of_int e"] by linarith
  have "of_int e \<le> log 2 y"
    using assms(1) pos by (simp add: le_log_iff)
  moreover have "log 2 y < of_int e + 1"
    using assms(2) pos by (simp add: log_less_iff)
  ultimately show ?thesis
    by (intro floor_unique)
qed

lemma pow2_int: "0 \<le> k \<Longrightarrow> (2::real) powr of_int k = of_int (2 ^ nat k)"
proof -
  assume "0 \<le> k"
  then have "(2::real) powr of_int k = 2 powr real (nat k)"
    by simp
  also have "\<dots> = 2 ^ nat k"
    by (rule powr_realpow) simp
  finally show ?thesis by simp
qed

lemma pow2_eval:
  "(2::real) powr of_int k = (if 0 \<le> k then 2 ^ nat k else 1 / 2 ^ nat (- k))"
proof (cases "0 \<le> k")
  case True
  then show ?thesis using pow2_int [of k] by simp
next
  case False
  then have "(2::real) powr of_int k = 1 / 2 powr of_int (- k)"
    by (simp add: powr_minus_divide)
  also have "\<dots> = 1 / 2 ^ nat (- k)"
    using False pow2_int [of "- k"] by simp
  finally show ?thesis using False by simp
qed

lemma pow2_mono: "a \<le> b \<Longrightarrow> (2::real) powr of_int a \<le> 2 powr of_int b"
  by (simp add: powr_mono)

lemma pow2_add: "(2::real) powr of_int (a + b) = 2 powr of_int a * 2 powr of_int b"
  by (simp add: powr_add)


lemma pow2_pos: "0 < (2::real) powr of_int k"
  by simp

lemma pow2_less: "a < b \<Longrightarrow> (2::real) powr of_int a < 2 powr of_int b"
  by (simp add: powr_less_mono)

lemma pow2_le_cancel: "(2::real) powr of_int a \<le> y \<Longrightarrow> y < 2 powr of_int b \<Longrightarrow> a < b"
proof (rule ccontr)
  assume a: "2 powr of_int a \<le> y" and b: "y < 2 powr of_int b" and "\<not> a < b"
  then have "b \<le> a" by simp
  then have "(2::real) powr of_int b \<le> 2 powr of_int a" by (rule pow2_mono)
  with a b show False by linarith
qed

lemma pow2_quot: "b \<le> a \<Longrightarrow> (2::real) powr of_int a / 2 powr of_int b = of_int (2 ^ nat (a - b))"
proof -
  assume "b \<le> a"
  then have "0 \<le> a - b" by simp
  from pow2_int [OF this] have "(2::real) powr of_int (a - b) = of_int (2 ^ nat (a - b))" .
  moreover have "(2::real) powr of_int a = 2 powr of_int (a - b) * 2 powr of_int b"
    using pow2_add [of "a - b" b] by simp
  ultimately show ?thesis by simp
qed

lemma round_fl_nonzero:
  assumes "x \<noteq> 0"
  shows "round_fl p emin emax x =
     (let u = 2 powr of_int (max \<lfloor>log 2 \<bar>x\<bar>\<rfloor> emin - int p + 1);
          r = of_int (rne (x / u)) * u
      in if \<bar>r\<bar> < 2 powr of_int (emax + 1) then Fin r else if 0 < x then PInf else NInf)"
  using assms by (simp add: round_fl_def Let_def)

lemma round_fl_error:
  assumes "round_fl p emin emax x = Fin r"
  shows "\<bar>r - x\<bar> \<le> 2 powr of_int (max \<lfloor>log 2 \<bar>x\<bar>\<rfloor> emin - int p + 1) / 2"
proof (cases "x = 0")
  case True
  with assms show ?thesis by (simp add: round_fl_def)
next
  case False
  define u :: real where "u = 2 powr of_int (max \<lfloor>log 2 \<bar>x\<bar>\<rfloor> emin - int p + 1)"
  have u: "0 < u" by (simp add: u_def)
  from assms False have r: "r = of_int (rne (x / u)) * u"
    by (simp add: round_fl_nonzero Let_def u_def split: if_splits)
  have "r - x = (of_int (rne (x / u)) - x / u) * u"
    using u by (simp add: r algebra_simps)
  then have "\<bar>r - x\<bar> = \<bar>of_int (rne (x / u)) - x / u\<bar> * u"
    using u by (simp add: abs_mult)
  also have "\<dots> \<le> 1 / 2 * u"
    using rne_bounds [of "x / u"] u by (intro mult_right_mono) simp_all
  finally show ?thesis by (simp add: u_def)
qed

lemma round_fl_rel_error:
  assumes "round_fl p emin emax x = Fin r"
  shows "\<bar>r - x\<bar> \<le> max (\<bar>x\<bar> * 2 powr of_int (- int p)) (2 powr of_int (emin - int p))"
proof (cases "x = 0")
  case True
  with assms show ?thesis by (simp add: round_fl_def)
next
  case False
  define e0 where "e0 = \<lfloor>log 2 \<bar>x\<bar>\<rfloor>"
  have half: "2 powr of_int (max e0 emin - int p + 1) / 2 = (2::real) powr of_int (max e0 emin - int p)"
    using pow2_add [of "max e0 emin - int p" 1] by simp
  from round_fl_error [OF assms] have err: "\<bar>r - x\<bar> \<le> 2 powr of_int (max e0 emin - int p)"
    unfolding e0_def [symmetric] half .
  show ?thesis
  proof (cases "emin \<le> e0")
    case True
    then have "max e0 emin = e0" by simp
    with err have "\<bar>r - x\<bar> \<le> 2 powr of_int e0 * 2 powr of_int (- int p)"
      using pow2_add [of e0 "- int p"] by simp
    also have "\<dots> \<le> \<bar>x\<bar> * 2 powr of_int (- int p)"
      using floor_log2_bounds(1) [of "\<bar>x\<bar>"] False
      by (intro mult_right_mono) (simp_all add: e0_def)
    finally show ?thesis by simp
  next
    case False
    then have "max e0 emin = emin" by simp
    with err show ?thesis by simp
  qed
qed

lemma round_fl_finite:
  assumes "\<bar>x\<bar> \<le> (2 ^ p - 1) * 2 powr of_int (emax - int p + 1)" and "emin \<le> emax" and "0 < p"
  shows "\<exists>r. round_fl p emin emax x = Fin r"
proof (cases "x = 0")
  case True
  then show ?thesis by (simp add: round_fl_def)
next
  case False
  define e0 where "e0 = \<lfloor>log 2 \<bar>x\<bar>\<rfloor>"
  define e where "e = max e0 emin"
  define u :: real where "u = 2 powr of_int (e - int p + 1)"
  define M :: real where "M = (2 ^ p - 1) * 2 powr of_int (emax - int p + 1)"
  have u: "0 < u" by (simp add: u_def)
  have top: "2 ^ p * 2 powr of_int (emax - int p + 1) = (2::real) powr of_int (emax + 1)"
  proof -
    have "(2::real) ^ p = 2 powr of_int (int p)"
      using pow2_int [of "int p"] by simp
    then show ?thesis
      using pow2_add [of "int p" "emax - int p + 1"] by simp
  qed
  have M_less: "M < 2 powr of_int (emax + 1)"
    unfolding M_def top [symmetric] by (intro mult_strict_right_mono) simp_all
  have "2 powr of_int e0 \<le> \<bar>x\<bar>"
    using floor_log2_bounds(1) [of "\<bar>x\<bar>"] False by (simp add: e0_def)
  moreover have "\<bar>x\<bar> < 2 powr of_int (emax + 1)"
    using assms(1) M_less by (simp add: M_def)
  ultimately have "e0 < emax + 1" by (rule pow2_le_cancel)
  with assms(2) have e: "e \<le> emax" by (simp add: e_def)
  define K :: int where "K = (2 ^ p - 1) * 2 ^ nat (emax - e)"
  have MK: "M = of_int K * u"
  proof -
    have "emax - int p + 1 = (emax - e) + (e - int p + 1)" by simp
    then have "(2::real) powr of_int (emax - int p + 1) = 2 powr of_int (emax - e) * u"
      unfolding u_def by (simp only: pow2_add)
    also have "(2::real) powr of_int (emax - e) = of_int (2 ^ nat (emax - e))"
      using e by (intro pow2_int) simp
    finally show ?thesis by (simp add: M_def K_def)
  qed
  have q: "x / u \<le> of_int K" "of_int (- K) \<le> x / u"
    using assms(1) u unfolding M_def [symmetric] MK
    by (simp_all add: field_simps abs_le_iff)
  have "rne (x / u) \<le> K" "- K \<le> rne (x / u)"
    using q by (auto intro: rne_le rne_ge)
  then have "\<bar>of_int (rne (x / u)) :: real\<bar> \<le> of_int K"
    by (simp add: abs_le_iff)
  then have "\<bar>of_int (rne (x / u)) * u\<bar> \<le> M"
    unfolding MK abs_mult using u by (simp add: mult_right_mono)
  with M_less have "\<bar>of_int (rne (x / u)) * u\<bar> < 2 powr of_int (emax + 1)"
    by simp
  with False show ?thesis
    by (simp add: round_fl_nonzero Let_def u_def e_def e0_def)
qed


lemma round_fl_pos:
  assumes "0 < x"
  shows "(\<exists>r. round_fl p emin emax x = Fin r \<and> 0 \<le> r) \<or> round_fl p emin emax x = PInf"
proof -
  define u :: real where "u = 2 powr of_int (max \<lfloor>log 2 \<bar>x\<bar>\<rfloor> emin - int p + 1)"
  have u: "0 < u" by (simp add: u_def)
  have "of_int 0 \<le> x / u"
    using assms u by simp
  then have "0 \<le> rne (x / u)" by (rule rne_ge)
  then have "0 \<le> of_int (rne (x / u)) * u"
    using u by simp
  with assms show ?thesis
    by (simp add: round_fl_nonzero Let_def u_def)
qed

lemma round_fl_ge_pow:
  assumes "2 powr of_int b \<le> x" and "emin \<le> b" and "0 < p"
  shows "(\<exists>r. round_fl p emin emax x = Fin r \<and> 2 powr of_int b \<le> r)
           \<or> round_fl p emin emax x = PInf"
proof -
  have x: "0 < x"
    using assms(1) pow2_pos [of b] by linarith
  define e0 where "e0 = \<lfloor>log 2 \<bar>x\<bar>\<rfloor>"
  define u :: real where "u = 2 powr of_int (max e0 emin - int p + 1)"
  have u: "0 < u" by (simp add: u_def)
  have lo: "2 powr of_int e0 \<le> x" and hi: "x < 2 powr of_int (e0 + 1)"
    using floor_log2_bounds [of x] x by (simp_all add: e0_def)
  from assms(1) hi have "b < e0 + 1" by (rule pow2_le_cancel)
  then have be: "b \<le> e0" by simp
  with assms(2) have e: "max e0 emin = e0" by simp
  have "e0 - int p + 1 \<le> e0"
    using assms(3) by simp
  then have "(2::real) powr of_int e0 / u = of_int (2 ^ nat (e0 - (e0 - int p + 1)))"
    unfolding u_def e by (rule pow2_quot)
  then have K: "2 powr of_int e0 = of_int (2 ^ nat (e0 - (e0 - int p + 1))) * u"
    using u by (simp add: field_simps)
  define K :: int where "K = 2 ^ nat (e0 - (e0 - int p + 1))"
  have "of_int K \<le> x / u"
    using lo u unfolding K K_def [symmetric] by (simp add: field_simps)
  then have "K \<le> rne (x / u)" by (rule rne_ge)
  then have "of_int K * u \<le> of_int (rne (x / u)) * u"
    using u by simp
  then have "2 powr of_int e0 \<le> of_int (rne (x / u)) * u"
    unfolding K K_def [symmetric] .
  moreover have "(2::real) powr of_int b \<le> 2 powr of_int e0"
    using be by (rule pow2_mono)
  ultimately have "2 powr of_int b \<le> of_int (rne (x / u)) * u"
    by linarith
  with x show ?thesis
    by (simp add: round_fl_nonzero Let_def u_def e0_def)
qed

lemma round_fl_le_pow:
  assumes "0 < x" and "x \<le> 2 powr of_int b" and "emin - int p + 1 \<le> b" and "b \<le> emax"
    and "0 < p"
  shows "\<exists>r. round_fl p emin emax x = Fin r \<and> 0 \<le> r \<and> r \<le> 2 powr of_int b"
proof -
  define e0 where "e0 = \<lfloor>log 2 \<bar>x\<bar>\<rfloor>"
  define u :: real where "u = 2 powr of_int (max e0 emin - int p + 1)"
  have u: "0 < u" by (simp add: u_def)
  have lo: "2 powr of_int e0 \<le> x"
    using floor_log2_bounds(1) [of x] assms(1) by (simp add: e0_def)
  have "(2::real) powr of_int b < 2 powr of_int (b + 1)"
    by (rule pow2_less) simp
  with assms(2) have "x < 2 powr of_int (b + 1)" by linarith
  with lo have "e0 < b + 1" by (rule pow2_le_cancel)
  with assms(3,5) have ub: "max e0 emin - int p + 1 \<le> b"
    by (simp add: max_def)
  define K :: int where "K = 2 ^ nat (b - (max e0 emin - int p + 1))"
  have "(2::real) powr of_int b / u = of_int K"
    unfolding u_def K_def using ub by (rule pow2_quot)
  then have K: "2 powr of_int b = of_int K * u"
    using u by (simp add: field_simps)
  have "x / u \<le> of_int K"
    using assms(2) u unfolding K by (simp add: field_simps)
  then have "rne (x / u) \<le> K" by (rule rne_le)
  then have le: "of_int (rne (x / u)) * u \<le> 2 powr of_int b"
    unfolding K using u by simp
  have "of_int 0 \<le> x / u"
    using assms(1) u by simp
  then have "0 \<le> rne (x / u)" by (rule rne_ge)
  then have ge: "0 \<le> of_int (rne (x / u)) * u"
    using u by simp
  have "(2::real) powr of_int b < 2 powr of_int (emax + 1)"
    using assms(4) by (intro pow2_less) simp
  with le ge have "\<bar>of_int (rne (x / u)) * u\<bar> < 2 powr of_int (emax + 1)"
    by linarith
  with assms(1) le ge show ?thesis
    by (simp add: round_fl_nonzero Let_def u_def e0_def)
qed

lemma round_fl_eval:
  assumes "2 powr of_int e \<le> \<bar>x\<bar>" and "\<bar>x\<bar> < 2 powr of_int (e + 1)"
    and "u = 2 powr of_int (max e emin - int p + 1)"
    and "x = (of_int k + d) * u" and "0 \<le> d" and "d < 1 / 2"
  shows "round_fl p emin emax x =
           (if \<bar>of_int k * u\<bar> < 2 powr of_int (emax + 1) then Fin (of_int k * u)
            else if 0 < x then PInf else NInf)"
proof -
  have nz: "x \<noteq> 0"
    using assms(1) pow2_pos [of e] by auto
  have e: "\<lfloor>log 2 \<bar>x\<bar>\<rfloor> = e"
    using assms(1,2) by (rule floor_log2_eq)
  have u: "0 < u" by (simp add: assms(3))
  have "x / u = of_int k + d"
    using u by (simp add: assms(4))
  then have k: "rne (x / u) = k"
    using assms(5,6) by (simp add: rne_near)
  show ?thesis
    unfolding round_fl_nonzero [OF nz] e assms(3) [symmetric] Let_def k ..
qed

section \<open>Construction\<close>

text \<open>
  Claim C5. For every positive \<open>ndims\<close>, construction with \<^verbatim>\<open>'zeros'\<close> gives a weight
  array of \<open>ndims + 1\<close> elements (one column of \<open>ndims + 1\<close> rows), all of them 0, and
  construction with \<^verbatim>\<open>'ones'\<close> gives one of the same shape whose elements are all 1.
\<close>

theorem init_zeros_ones:
  assumes "0 < nd"
  shows "\<exists>z w. init u g nd ''zeros'' = Inr (\<lparr>ndims = nd, W_init = ''zeros'', W = Some z\<rparr>, [])
           \<and> shape z = [nat (nd + 1), 1] \<and> wf_arr z
           \<and> int (length (ravel z)) = nd + 1 \<and> (\<forall>v\<in>set (ravel z). v = 0)
           \<and> init u g nd ''ones'' = Inr (\<lparr>ndims = nd, W_init = ''ones'', W = Some w\<rparr>, [])
           \<and> shape w = [nat (nd + 1), 1] \<and> wf_arr w
           \<and> int (length (ravel w)) = nd + 1 \<and> (\<forall>v\<in>set (ravel w). v = 1)"
  using assms
  by (simp add: init_def with_W_def np_zeros_def np_ones_def list_all_iff)

theorem init_zeros_ones_witness:
  "(0::int) < 2
   \<and> (\<exists>z w. init (\<lambda>i. 0) (\<lambda>i. 0) 2 ''zeros''
               = Inr (\<lparr>ndims = 2, W_init = ''zeros'', W = Some z\<rparr>, [])
          \<and> shape z = [nat (2 + 1), 1] \<and> wf_arr z
          \<and> int (length (ravel z)) = 2 + 1 \<and> (\<forall>v\<in>set (ravel z). v = 0)
          \<and> init (\<lambda>i. 0) (\<lambda>i. 0) 2 ''ones''
               = Inr (\<lparr>ndims = 2, W_init = ''ones'', W = Some w\<rparr>, [])
          \<and> shape w = [nat (2 + 1), 1] \<and> wf_arr w
          \<and> int (length (ravel w)) = 2 + 1 \<and> (\<forall>v\<in>set (ravel w). v = 1))"
proof -
  have pos: "(0::int) < 2" by simp
  show ?thesis
    using pos init_zeros_ones [OF pos, where u = "\<lambda>i. 0" and g = "\<lambda>i. 0"] by blast
qed

text \<open>
  Claim C9. For every \<open>ndims\<close> and every \<open>W_init\<close> that is none of the four policy names,
  construction returns normally with \<open>W\<close> left unset (it prints a message only), and each
  later use of the weights fails: \<open>forward\<close>, \<open>backward\<close>, \<open>classify\<close> and \<open>save_model\<close> raise
  AttributeError, and so does \<open>fit\<close> as soon as it runs an iteration.
\<close>

theorem init_unknown_policy:
  assumes "wi \<notin> {''zeros'', ''ones'', ''uniform'', ''gaussian''}"
  shows "init u g nd wi = Inr (\<lparr>ndims = nd, W_init = wi, W = None\<rparr>, [Print_unknown_W_init wi])
     \<and> forward \<lparr>ndims = nd, W_init = wi, W = None\<rparr> X = Inl AttributeError
     \<and> backward \<lparr>ndims = nd, W_init = wi, W = None\<rparr> Y X = Inl AttributeError
     \<and> classify \<lparr>ndims = nd, W_init = wi, W = None\<rparr> X = Inl AttributeError
     \<and> save_model \<lparr>ndims = nd, W_init = wi, W = None\<rparr> p fs = Inl AttributeError
     \<and> (0 < k \<longrightarrow> fit \<lparr>ndims = nd, W_init = wi, W = None\<rparr> Y X lr k
           = (Some AttributeError, \<lparr>ndims = nd, W_init = wi, W = None\<rparr>, []))"
proof -
  have "0 < k \<Longrightarrow> range_py k = 0 # map int [1..<nat k]"
    by (simp add: range_py_def upt_conv_Cons)
  with assms show ?thesis
    by (auto simp add: init_def forward_def backward_def classify_def save_model_def fit_def)
qed

theorem init_unknown_policy_witness:
  "''random'' \<notin> {''zeros'', ''ones'', ''uniform'', ''gaussian''}
   \<and> init (\<lambda>i. 0) (\<lambda>i. 0) 2 ''random''
       = Inr (\<lparr>ndims = 2, W_init = ''random'', W = None\<rparr>, [Print_unknown_W_init ''random''])
   \<and> forward \<lparr>ndims = 2, W_init = ''random'', W = None\<rparr> (Arr2 1 3 [[1, 0, 0]])
       = Inl AttributeError
   \<and> backward \<lparr>ndims = 2, W_init = ''random'', W = None\<rparr> (Arr1 [1]) (Arr2 1 3 [[1, 0, 0]])
       = Inl AttributeError
   \<and> classify \<lparr>ndims = 2, W_init = ''random'', W = None\<rparr> (Arr2 1 3 [[1, 0, 0]])
       = Inl AttributeError
   \<and> save_model \<lparr>ndims = 2, W_init = ''random'', W = None\<rparr> ''w.bin''
         \<lparr>files = Map.empty, writable = (\<lambda>p. True)\<rparr>
       = Inl AttributeError
   \<and> fit \<lparr>ndims = 2, W_init = ''random'', W = None\<rparr> (Arr1 [1]) (Arr2 1 3 [[1, 0, 0]]) (1 / 10) 1
       = (Some AttributeError, \<lparr>ndims = 2, W_init = ''random'', W = None\<rparr>, [])"
proof -
  have other: "''random'' \<notin> {''zeros'', ''ones'', ''uniform'', ''gaussian''}" by simp
  show ?thesis
    using other
      init_unknown_policy [OF other, where u = "\<lambda>i. 0" and g = "\<lambda>i. 0" and nd = 2
        and X = "Arr2 1 3 [[1, 0, 0]]" and Y = "Arr1 [1]"
        and p = "''w.bin''" and fs = "\<lparr>files = Map.empty, writable = (\<lambda>p. True)\<rparr>"
        and lr = "1 / 10" and k = 1]
    by simp
qed

section \<open>Saving and loading the weights\<close>

lemma binary32_finite:
  assumes "\<bar>x\<bar> \<le> max_float32"
  shows "\<exists>r. binary32 x = Fin r"
proof -
  have "(2::real) powr of_int (127 - int 24 + 1) = 2 ^ 104"
    by simp
  with assms have "\<bar>x\<bar> \<le> (2 ^ 24 - 1) * 2 powr of_int (127 - int 24 + 1)"
    by (simp only: max_float32_def)
  then show ?thesis
    unfolding binary32_def by (rule round_fl_finite) simp_all
qed

lemma binary32_error:
  assumes "binary32 x = Fin r"
  shows "\<bar>r - x\<bar> \<le> max (\<bar>x\<bar> / 2 ^ 24) (1 / 2 ^ 150)"
proof -
  have "\<bar>r - x\<bar> \<le> max (\<bar>x\<bar> * 2 powr of_int (- int 24)) (2 powr of_int (- 126 - int 24))"
    using assms unfolding binary32_def by (rule round_fl_rel_error)
  then show ?thesis
    by (simp add: powr_minus_divide)
qed

lemma float32_close:
  assumes "\<bar>x\<bar> \<le> max_float32"
  shows "\<exists>r. float32 (Fin x) = Fin r \<and> \<bar>r - x\<bar> \<le> max (\<bar>x\<bar> / 2 ^ 24) (1 / 2 ^ 150)"
  using binary32_finite [OF assms] binary32_error [of x] by auto

lemma save_then_load:
  assumes "W m = Some w" and "writable fs p"
  shows "save_model m p fs = Inr (fs\<lparr>files := (files fs)(p \<mapsto> map float32 (ravel w))\<rparr>, [Print_saved p])"
    and "load_model m2 p (fs\<lparr>files := (files fs)(p \<mapsto> map float32 (ravel w))\<rparr>)
           = Inr (m2\<lparr>W := Some (Arr1 (map float32 (ravel w)))\<rparr>, [Print_loaded p])"
  using assms
  by (simp_all add: save_model_def load_model_def tofile_def np_fromfile_def astype_def
      ravel_map_ndarray)

lemma binary32_1: "binary32 1 = Fin 1"
proof -
  have "binary32 1 = (if \<bar>of_int (2 ^ 23) * (1 / 2 ^ 23 :: real)\<bar> < 2 powr of_int (127 + 1)
                      then Fin (of_int (2 ^ 23) * (1 / 2 ^ 23)) else if 0 < (1::real) then PInf else NInf)"
    unfolding binary32_def
    by (rule round_fl_eval [where e = 0 and d = 0]) (simp_all add: powr_minus_divide)
  then show ?thesis
    by (simp add: pow2_eval)
qed

lemma binary32_overflow: "binary32 (2 ^ 130) = PInf"
proof -
  have "binary32 (2 ^ 130) = (if \<bar>of_int (2 ^ 23) * (2 ^ 107 :: real)\<bar> < 2 powr of_int (127 + 1)
                      then Fin (of_int (2 ^ 23) * 2 ^ 107) else if 0 < (2 ^ 130::real) then PInf else NInf)"
    unfolding binary32_def
    by (rule round_fl_eval [where e = 130 and d = 0]) simp_all
  then show ?thesis
    by simp
qed

lemma binary32_near_1: "binary32 (1 + 1 / 2 ^ 30) = Fin 1"
proof -
  have "binary32 (1 + 1 / 2 ^ 30) = (if \<bar>of_int (2 ^ 23) * (1 / 2 ^ 23 :: real)\<bar> < 2 powr of_int (127 + 1)
                      then Fin (of_int (2 ^ 23) * (1 / 2 ^ 23)) else if 0 < (1 + 1 / 2 ^ 30::real) then PInf else NInf)"
    unfolding binary32_def
    by (rule round_fl_eval [where e = 0 and d = "1 / 2 ^ 7"]) (simp_all add: powr_minus_divide)
  then show ?thesis
    by (simp add: pow2_eval)
qed

lemma binary32_near_3: "binary32 (3 + 1 / 2 ^ 40) = Fin 3"
proof -
  have "binary32 (3 + 1 / 2 ^ 40) = (if \<bar>of_int (3 * 2 ^ 22) * (1 / 2 ^ 22 :: real)\<bar> < 2 powr of_int (127 + 1)
                      then Fin (of_int (3 * 2 ^ 22) * (1 / 2 ^ 22)) else if 0 < (3 + 1 / 2 ^ 40::real) then PInf else NInf)"
    unfolding binary32_def
    by (rule round_fl_eval [where e = 1 and d = "1 / 2 ^ 18"]) (simp_all add: powr_minus_divide)
  then show ?thesis
    by (simp add: pow2_eval)
qed

text \<open>
  Claim C6, as stated, fails for a weight beyond the range of float32: a model whose weights
  are \<open>2 ^ 130\<close> and 1 saves the values infinity and 1, and loading the file sets \<open>W\<close> to
  the vector of infinity and 1.
\<close>

theorem save_load_overflow:
  "save_model \<lparr>ndims = 1, W_init = ''ones'', W = Some (Arr2 2 1 [[Fin (2 ^ 130)], [Fin 1]])\<rparr>
      ''w.bin'' \<lparr>files = Map.empty, writable = (\<lambda>p. True)\<rparr>
     = Inr (\<lparr>files = [''w.bin'' \<mapsto> [PInf, Fin 1]], writable = (\<lambda>p. True)\<rparr>,
            [Print_saved ''w.bin''])
   \<and> load_model \<lparr>ndims = 1, W_init = ''ones'', W = Some (Arr2 2 1 [[Fin (2 ^ 130)], [Fin 1]])\<rparr>
      ''w.bin'' \<lparr>files = [''w.bin'' \<mapsto> [PInf, Fin 1]], writable = (\<lambda>p. True)\<rparr>
     = Inr (\<lparr>ndims = 1, W_init = ''ones'', W = Some (Arr1 [PInf, Fin 1])\<rparr>,
            [Print_loaded ''w.bin''])"
proof -
  let ?w = "Arr2 2 1 [[Fin (2 ^ 130)], [Fin 1]]"
  let ?fs = "\<lparr>files = Map.empty :: string \<rightharpoonup> fl list, writable = (\<lambda>p. True)\<rparr>"
  have a: "W \<lparr>ndims = 1, W_init = ''ones'', W = Some ?w\<rparr> = Some ?w"
    by simp
  have b: "writable ?fs ''w.bin''"
    by simp
  have c: "map float32 (ravel ?w) = [PInf, Fin 1]"
    by (simp only: ravel.simps concat.simps append.simps list.map float32.simps
        binary32_overflow binary32_1)
  have d: "?fs\<lparr>files := (files ?fs)(''w.bin'' \<mapsto> [PInf, Fin 1])\<rparr>
             = \<lparr>files = [''w.bin'' \<mapsto> [PInf, Fin 1]], writable = (\<lambda>p. True)\<rparr>"
    by simp
  show ?thesis
    using save_then_load(1) [OF a b]
      save_then_load(2) [OF a b, of "\<lparr>ndims = 1, W_init = ''ones'', W = Some ?w\<rparr>"]
    unfolding c d by simp
qed

text \<open>
  Claim C6, amended. When the weights are finite and none exceeds the largest finite float32
  in magnitude, and the path can be written, \<open>save_model\<close> succeeds and a following
  \<open>load_model\<close> of the same path (into this or any other model object) succeeds and sets
  \<open>W\<close> to a vector of as many finite values in the same order, each within float32
  precision of the weight it comes from: the difference is at most the weight's magnitude
  divided by \<open>2 ^ 24\<close>, or at most \<open>2 ^ - 150\<close> for a weight below the normal range.
\<close>

theorem save_load_float32:
  assumes "W m = Some w" and "writable fs p"
    and "\<forall>v\<in>set (ravel w). \<exists>x. v = Fin x \<and> \<bar>x\<bar> \<le> max_float32"
  shows "\<exists>fs' vs. save_model m p fs = Inr (fs', [Print_saved p])
           \<and> load_model m2 p fs' = Inr (m2\<lparr>W := Some (Arr1 vs)\<rparr>, [Print_loaded p])
           \<and> length vs = length (ravel w)
           \<and> (\<forall>i < length vs. \<exists>x r. ravel w ! i = Fin x \<and> vs ! i = Fin r
                  \<and> \<bar>r - x\<bar> \<le> max (\<bar>x\<bar> / 2 ^ 24) (1 / 2 ^ 150))"
proof -
  have "\<exists>x r. ravel w ! i = Fin x \<and> map float32 (ravel w) ! i = Fin r
            \<and> \<bar>r - x\<bar> \<le> max (\<bar>x\<bar> / 2 ^ 24) (1 / 2 ^ 150)"
    if "i < length (ravel w)" for i
  proof -
    from that assms(3) obtain x where x: "ravel w ! i = Fin x" "\<bar>x\<bar> \<le> max_float32"
      by (meson nth_mem)
    from float32_close [OF x(2)] x(1) that show ?thesis
      by auto
  qed
  with save_then_load(1) [OF assms(1,2)] save_then_load(2) [OF assms(1,2), of m2] show ?thesis
    by (intro exI [of _ "fs\<lparr>files := (files fs)(p \<mapsto> map float32 (ravel w))\<rparr>"]
        exI [of _ "map float32 (ravel w)"]) simp
qed

theorem save_load_float32_witness:
  "save_model
      \<lparr>ndims = 1, W_init = ''ones'',
         W = Some (Arr2 2 1 [[Fin (1 + 1 / 2 ^ 30)], [Fin (3 + 1 / 2 ^ 40)]])\<rparr>
      ''w.bin'' \<lparr>files = Map.empty, writable = (\<lambda>p. True)\<rparr>
     = Inr (\<lparr>files = [''w.bin'' \<mapsto> [Fin 1, Fin 3]], writable = (\<lambda>p. True)\<rparr>,
            [Print_saved ''w.bin''])
   \<and> load_model \<lparr>ndims = 1, W_init = ''zeros'', W = Some (Arr2 2 1 [[Fin 0], [Fin 0]])\<rparr>
      ''w.bin'' \<lparr>files = [''w.bin'' \<mapsto> [Fin 1, Fin 3]], writable = (\<lambda>p. True)\<rparr>
     = Inr (\<lparr>ndims = 1, W_init = ''zeros'', W = Some (Arr1 [Fin 1, Fin 3])\<rparr>,
            [Print_loaded ''w.bin''])
   \<and> \<bar>1 - (1 + 1 / 2 ^ 30)\<bar> \<le> max (\<bar>1 + 1 / 2 ^ 30\<bar> / 2 ^ 24) (1 / 2 ^ 150 :: real)
   \<and> \<bar>3 - (3 + 1 / 2 ^ 40)\<bar> \<le> max (\<bar>3 + 1 / 2 ^ 40\<bar> / 2 ^ 24) (1 / 2 ^ 150 :: real)"
proof -
  let ?w = "Arr2 2 1 [[Fin (1 + 1 / 2 ^ 30)], [Fin (3 + 1 / 2 ^ 40)]]"
  have a: "W \<lparr>ndims = 1, W_init = ''ones'', W = Some ?w\<rparr> = Some ?w"
    by simp
  have b: "writable \<lparr>files = Map.empty :: string \<rightharpoonup> fl list, writable = (\<lambda>p. True)\<rparr> ''w.bin''"
    by simp
  have c1: "\<bar>1 + 1 / 2 ^ 30\<bar> \<le> max_float32" and c2: "\<bar>3 + 1 / 2 ^ 40\<bar> \<le> max_float32"
    by (simp_all add: max_float32_def)
  have c: "\<forall>v\<in>set (ravel ?w). \<exists>x. v = Fin x \<and> \<bar>x\<bar> \<le> max_float32"
  proof
    fix v assume "v \<in> set (ravel ?w)"
    then consider "v = Fin (1 + 1 / 2 ^ 30)" | "v = Fin (3 + 1 / 2 ^ 40)"
      by auto
    then show "\<exists>x. v = Fin x \<and> \<bar>x\<bar> \<le> max_float32"
      using c1 c2 by cases blast+
  qed
  have s: "save_model \<lparr>ndims = 1, W_init = ''ones'', W = Some ?w\<rparr>
             ''w.bin'' \<lparr>files = Map.empty, writable = (\<lambda>p. True)\<rparr>
           = Inr (\<lparr>files = [''w.bin'' \<mapsto> [Fin 1, Fin 3]], writable = (\<lambda>p. True)\<rparr>,
                  [Print_saved ''w.bin''])"
  proof -
    let ?fs = "\<lparr>files = Map.empty :: string \<rightharpoonup> fl list, writable = (\<lambda>p. True)\<rparr>"
    have m: "map float32 (ravel ?w) = [Fin 1, Fin 3]"
      by (simp only: ravel.simps concat.simps append.simps list.map float32.simps
          binary32_near_1 binary32_near_3)
    have d: "?fs\<lparr>files := (files ?fs)(''w.bin'' \<mapsto> [Fin 1, Fin 3])\<rparr>
               = \<lparr>files = [''w.bin'' \<mapsto> [Fin 1, Fin 3]], writable = (\<lambda>p. True)\<rparr>"
      by simp
    show ?thesis
      using save_then_load(1) [OF a b] unfolding m d .
  qed
  from save_load_float32 [OF a b c,
      of "\<lparr>ndims = 1, W_init = ''zeros'', W = Some (Arr2 2 1 [[Fin 0], [Fin 0]])\<rparr>"]
  obtain fs' vs where
    r: "save_model \<lparr>ndims = 1, W_init = ''ones'', W = Some ?w\<rparr>
          ''w.bin'' \<lparr>files = Map.empty, writable = (\<lambda>p. True)\<rparr> = Inr (fs', [Print_saved ''w.bin''])"
       "load_model \<lparr>ndims = 1, W_init = ''zeros'', W = Some (Arr2 2 1 [[Fin 0], [Fin 0]])\<rparr> ''w.bin'' fs'
          = Inr (\<lparr>ndims = 1, W_init = ''zeros'', W = Some (Arr2 2 1 [[Fin 0], [Fin 0]])\<rparr>
                   \<lparr>W := Some (Arr1 vs)\<rparr>, [Print_loaded ''w.bin''])"
       "length vs = length (ravel ?w)"
       "\<forall>i < length vs. \<exists>x r. ravel ?w ! i = Fin x \<and> vs ! i = Fin r
            \<and> \<bar>r - x\<bar> \<le> max (\<bar>x\<bar> / 2 ^ 24) (1 / 2 ^ 150)"
    by blast
  from r(1) s have fs': "fs' = \<lparr>files = [''w.bin'' \<mapsto> [Fin 1, Fin 3]], writable = (\<lambda>p. True)\<rparr>"
    by simp
  from r(2) have vs: "vs = [Fin 1, Fin 3]"
    unfolding fs' by (simp add: load_model_def np_fromfile_def)
  have e: "\<bar>1 - (1 + 1 / 2 ^ 30)\<bar> \<le> max (\<bar>1 + 1 / 2 ^ 30\<bar> / 2 ^ 24) (1 / 2 ^ 150 :: real)"
      "\<bar>3 - (3 + 1 / 2 ^ 40)\<bar> \<le> max (\<bar>3 + 1 / 2 ^ 40\<bar> / 2 ^ 24) (1 / 2 ^ 150 :: real)"
    by simp_all
  from r(2) have l: "load_model \<lparr>ndims = 1, W_init = ''zeros'', W = Some (Arr2 2 1 [[Fin 0], [Fin 0]])\<rparr>
      ''w.bin'' \<lparr>files = [''w.bin'' \<mapsto> [Fin 1, Fin 3]], writable = (\<lambda>p. True)\<rparr>
     = Inr (\<lparr>ndims = 1, W_init = ''zeros'', W = Some (Arr1 [Fin 1, Fin 3])\<rparr>,
            [Print_loaded ''w.bin''])"
    unfolding fs' vs by simp
  from s l e show ?thesis by (intro conjI)
qed

section \<open>Inference\<close>

text \<open>The scores: one inner product per sample.\<close>

lemma scores_matrix:
  assumes "wf_arr (Arr2 n c rows)" and "wf_arr (Arr2 c 1 wr)"
  shows "np_dot (np_T (Arr2 c 1 wr)) (np_T (Arr2 n c rows))
           = Inr (Arr2 1 n [map (dotp (concat wr)) rows])"
proof -
  from assms(2) have wr: "col 0 wr = concat wr"
    by (simp add: column_rows)
  have "map (\<lambda>j. dotp (concat wr) (col j (map (\<lambda>j. col j rows) [0..<c]))) [0..<n]
          = map (\<lambda>j. dotp (concat wr) (rows ! j)) [0..<n]"
    using assms(1) by (simp add: col_transposed)
  also have "\<dots> = map (dotp (concat wr)) rows"
    using assms(1) map_nth_fun [of "dotp (concat wr)" rows] by simp
  finally show ?thesis
    by (simp add: wr)
qed

lemma scores_vector:
  assumes "wf_arr (Arr2 n c rows)" and "length ws = c"
  shows "np_dot (np_T (Arr1 ws)) (np_T (Arr2 n c rows)) = Inr (Arr1 (map (dotp ws) rows))"
proof -
  have "map (\<lambda>j. dotp ws (col j (map (\<lambda>j. col j rows) [0..<c]))) [0..<n]
          = map (\<lambda>j. dotp ws (rows ! j)) [0..<n]"
    using assms(1) by (simp add: col_transposed)
  also have "\<dots> = map (dotp ws) rows"
    using assms(1) map_nth_fun [of "dotp ws" rows] by simp
  finally show ?thesis
    using assms(2) by simp
qed

lemma sigmoid_ravel: "ravel (sigmoid D) = map sigmoid_spec (ravel D)"
  by (simp add: sigmoid_def np_exp_def ravel_map_ndarray sigmoid_spec_def comp_def)

lemma sigmoid_shape: "shape (sigmoid D) = shape D"
  by (simp add: sigmoid_def np_exp_def shape_map_ndarray)

lemma forward_result:
  assumes "W m = Some w" and "weights_fit w c" and "wf_arr (Arr2 n c rows)"
  shows "\<exists>P. forward m (Arr2 n c rows) = Inr P
           \<and> ravel P = map (\<lambda>x. sigmoid_spec (dotp (ravel w) x)) rows
           \<and> length (ravel P) = n
           \<and> shape P = (case w of Arr2 r k A \<Rightarrow> [1, n] | _ \<Rightarrow> [n])"
proof (cases w)
  case (Arr0 a)
  with assms(2) show ?thesis by simp
next
  case (Arr1 ws)
  with assms have "np_dot (np_T w) (np_T (Arr2 n c rows)) = Inr (Arr1 (map (dotp ws) rows))"
    using scores_vector [of n c rows ws] by simp
  with assms(1,3) Arr1 show ?thesis
    by (simp add: forward_def sigmoid_ravel sigmoid_shape)
next
  case (Arr2 r k wr)
  with assms(2) have w: "w = Arr2 c 1 wr" and wfw: "wf_arr (Arr2 c 1 wr)"
    by auto
  have "np_dot (np_T w) (np_T (Arr2 n c rows)) = Inr (Arr2 1 n [map (dotp (concat wr)) rows])"
    unfolding w using assms(3) wfw by (rule scores_matrix)
  with assms(1,3) w show ?thesis
    by (simp add: forward_def sigmoid_ravel sigmoid_shape)
qed

text \<open>
  Claim C3. When the weights fit the \<open>c\<close> columns of the feature matrix, \<open>forward\<close> returns
  one value per sample row, in row order: the logistic function of the inner product of the
  weights with that row. The result is a single row of \<open>n\<close> values for the weights of
  \<open>init\<close> and a vector of \<open>n\<close> values for loaded weights. \<open>forward\<close> returns this array
  only: it assigns no field of the object.
\<close>

theorem forward_probabilities:
  assumes "W m = Some w" and "weights_fit w c" and "wf_arr (Arr2 n c rows)"
  shows "\<exists>P. forward m (Arr2 n c rows) = Inr P
           \<and> ravel P = map (\<lambda>x. sigmoid_spec (dotp (ravel w) x)) rows
           \<and> length (ravel P) = n
           \<and> shape P = (case w of Arr2 r k A \<Rightarrow> [1, n] | _ \<Rightarrow> [n])"
  using assms by (rule forward_result)

theorem forward_probabilities_witness:
  "\<exists>P. forward \<lparr>ndims = 2, W_init = ''ones'', W = Some (Arr2 3 1 [[1], [1], [1]])\<rparr>
          (Arr2 2 3 [[1, 0, 0], [1, 1, - 2]]) = Inr P
      \<and> ravel P = [1 / (1 + exp (- 1)), 1 / 2]
      \<and> length (ravel P) = 2
      \<and> shape P = [1, 2]"
proof -
  have a: "W \<lparr>ndims = 2, W_init = ''ones'', W = Some (Arr2 3 1 [[1], [1], [1]])\<rparr>
             = Some (Arr2 3 1 [[1], [1], [1]])"
    by simp
  have b: "weights_fit (Arr2 3 1 [[1], [1], [1]]) 3"
    by simp
  have c: "wf_arr (Arr2 2 3 [[1, 0, 0], [1, 1, - 2 :: real]])"
    by simp
  show ?thesis
    using forward_probabilities [OF a b c] by (simp add: sigmoid_spec_def dotp_def)
qed

text \<open>
  On the reals the logistic function lies strictly between 0 and 1. This is a fact of exact
  arithmetic only; what \<open>forward\<close> returns in binary64 is treated in the next section.
\<close>

lemma sigmoid_spec_range: "0 < sigmoid_spec x \<and> sigmoid_spec x < 1"
proof -
  have "0 < exp (- x)" by simp
  then show ?thesis
    by (simp add: sigmoid_spec_def add_pos_pos)
qed

section \<open>Inference in binary64\<close>

lemma binary64_1: "binary64 1 = Fin 1"
proof -
  have "binary64 1 = (if \<bar>of_int (2 ^ 52) * (1 / 2 ^ 52 :: real)\<bar> < 2 powr of_int (1023 + 1)
                      then Fin (of_int (2 ^ 52) * (1 / 2 ^ 52)) else if 0 < (1::real) then PInf else NInf)"
    unfolding binary64_def
    by (rule round_fl_eval [where e = 0 and d = 0]) (simp_all add: powr_minus_divide)
  then show ?thesis
    by (simp add: pow2_eval)
qed

lemma binary64_99: "binary64 99 = Fin 99"
proof -
  have "binary64 99 = (if \<bar>of_int (99 * 2 ^ 46) * (1 / 2 ^ 46 :: real)\<bar> < 2 powr of_int (1023 + 1)
                      then Fin (of_int (99 * 2 ^ 46) * (1 / 2 ^ 46)) else if 0 < (99::real) then PInf else NInf)"
    unfolding binary64_def
    by (rule round_fl_eval [where e = 6 and d = 0]) (simp_all add: powr_minus_divide)
  then show ?thesis
    by (simp add: pow2_eval)
qed

lemma binary64_100: "binary64 100 = Fin 100"
proof -
  have "binary64 100 = (if \<bar>of_int (100 * 2 ^ 46) * (1 / 2 ^ 46 :: real)\<bar> < 2 powr of_int (1023 + 1)
                      then Fin (of_int (100 * 2 ^ 46) * (1 / 2 ^ 46)) else if 0 < (100::real) then PInf else NInf)"
    unfolding binary64_def
    by (rule round_fl_eval [where e = 6 and d = 0]) (simp_all add: powr_minus_divide)
  then show ?thesis
    by (simp add: pow2_eval)
qed


lemma exp_minus_100: "exp (- 100 :: real) \<le> 1 / 2 ^ 54"
proof -
  have "(2::real) \<le> exp 1"
    using exp_ge_add_one_self [of "1::real"] by simp
  then have "(2::real) ^ 100 \<le> exp 1 ^ 100"
    by (intro power_mono) simp_all
  also have "\<dots> = exp (100::real)"
    using exp_of_nat_mult [of 100 "1::real"] by simp
  finally have big: "(2::real) ^ 100 \<le> exp 100" .
  have "exp (- 100 :: real) = 1 / exp 100"
    by (simp add: exp_minus inverse_eq_divide)
  also have "\<dots> \<le> 1 / 2 ^ 100"
    using big by (intro divide_left_mono) simp_all
  also have "\<dots> \<le> 1 / 2 ^ 54"
    by simp
  finally show ?thesis .
qed

lemma binary64_exp_minus_100:
  "\<exists>t. binary64 (exp (- 100)) = Fin t \<and> 0 \<le> t \<and> t \<le> 1 / 2 ^ 54"
proof -
  have "\<exists>r. round_fl 53 (- 1022) 1023 (exp (- 100)) = Fin r \<and> 0 \<le> r \<and> r \<le> 2 powr of_int (- 54)"
    using exp_minus_100 by (intro round_fl_le_pow) (simp_all add: powr_minus_divide)
  then show ?thesis
    by (simp add: binary64_def powr_minus_divide)
qed

lemma binary64_one_plus:
  assumes "0 \<le> t" and "t \<le> 1 / 2 ^ 54"
  shows "binary64 (1 + t) = Fin 1"
proof -
  have "binary64 (1 + t) =
          (if \<bar>of_int (2 ^ 52) * (1 / 2 ^ 52 :: real)\<bar> < 2 powr of_int (1023 + 1)
           then Fin (of_int (2 ^ 52) * (1 / 2 ^ 52)) else if 0 < 1 + t then PInf else NInf)"
    unfolding binary64_def
  proof (rule round_fl_eval [where e = 0 and d = "t * 2 ^ 52"])
    show "2 powr of_int 0 \<le> \<bar>1 + t\<bar>"
      using assms by simp
    show "\<bar>1 + t\<bar> < 2 powr of_int (0 + 1)"
      using assms by simp
    show "(1 / 2 ^ 52 :: real) = 2 powr of_int (max 0 (- 1022) - int 53 + 1)"
      by (simp add: powr_minus_divide)
    show "1 + t = (of_int (2 ^ 52) + t * 2 ^ 52) * (1 / 2 ^ 52)"
      by (simp add: field_simps)
    show "0 \<le> t * 2 ^ 52"
      using assms by simp
    have "t * 2 ^ 52 \<le> 1 / 2 ^ 54 * 2 ^ 52"
      using assms(2) by (intro mult_right_mono) simp_all
    then show "t * 2 ^ 52 < 1 / 2"
      by simp
  qed
  then show ?thesis
    by (simp add: pow2_eval)
qed

lemma fl_div_one_one: "fl_div (Fin 1) (Fin 1) = Fin 1"
  by (simp add: binary64_1)

lemma sigmoid64_at_100:
  "fl_div (Fin 1) (fl_add (Fin 1) (fl_exp (fl_neg (Fin 100)))) = Fin 1"
proof -
  from binary64_exp_minus_100 obtain t where
    t: "binary64 (exp (- 100)) = Fin t" "0 \<le> t" "t \<le> 1 / 2 ^ 54"
    by blast
  have "fl_exp (fl_neg (Fin 100)) = Fin t"
    by (simp add: t(1))
  then have "fl_add (Fin 1) (fl_exp (fl_neg (Fin 100))) = Fin 1"
    using binary64_one_plus [OF t(2,3)] by simp
  then show ?thesis
    by (simp only: fl_div_one_one)
qed

lemma dot64_example: "dot64 [Fin 1, Fin 1] [Fin 1, Fin 99] = Fin 100"
  by (simp add: dot64_def binary64_1 binary64_99 binary64_100)

lemma sigmoid64_elem_range:
  "\<exists>s. fl_div (Fin 1) (fl_add (Fin 1) (fl_exp (fl_neg (Fin x)))) = Fin s \<and> 0 \<le> s \<and> s \<le> 1"
proof -
  have "(\<exists>t. binary64 (exp (- x)) = Fin t \<and> 0 \<le> t) \<or> binary64 (exp (- x)) = PInf"
    unfolding binary64_def by (rule round_fl_pos) simp
  then show ?thesis
  proof
    assume "binary64 (exp (- x)) = PInf"
    then show ?thesis by simp
  next
    assume "\<exists>t. binary64 (exp (- x)) = Fin t \<and> 0 \<le> t"
    then obtain t where t: "binary64 (exp (- x)) = Fin t" "0 \<le> t"
      by blast
    have "(\<exists>r. binary64 (1 + t) = Fin r \<and> 2 powr of_int 0 \<le> r) \<or> binary64 (1 + t) = PInf"
      unfolding binary64_def using t(2) by (intro round_fl_ge_pow) simp_all
    then show ?thesis
    proof
      assume "binary64 (1 + t) = PInf"
      with t(1) show ?thesis by simp
    next
      assume "\<exists>r. binary64 (1 + t) = Fin r \<and> 2 powr of_int 0 \<le> r"
      then obtain r where r: "binary64 (1 + t) = Fin r" "1 \<le> r"
        by auto
      have "\<exists>s. binary64 (1 / r) = Fin s \<and> 0 \<le> s \<and> s \<le> 2 powr of_int 0"
        unfolding binary64_def using r(2) by (intro round_fl_le_pow) simp_all
      with t(1) r show ?thesis by auto
    qed
  qed
qed

lemma sigmoid64_range:
  assumes "\<forall>d\<in>set (ravel D). \<exists>x. d = Fin x"
  shows "\<forall>p\<in>set (ravel (sigmoid64 D)). \<exists>s. p = Fin s \<and> 0 \<le> s \<and> s \<le> 1"
proof -
  have "ravel (sigmoid64 D)
          = map (\<lambda>d. fl_div (Fin 1) (fl_add (Fin 1) (fl_exp (fl_neg d)))) (ravel D)"
    by (simp add: sigmoid64_def ravel_map_ndarray comp_def)
  with assms show ?thesis
    using sigmoid64_elem_range by auto
qed

lemma binary64_2: "binary64 2 = Fin 2"
proof -
  have "binary64 2 = (if \<bar>of_int (2 ^ 52) * (1 / 2 ^ 51 :: real)\<bar> < 2 powr of_int (1023 + 1)
                      then Fin (of_int (2 ^ 52) * (1 / 2 ^ 51)) else if 0 < (2::real) then PInf else NInf)"
    unfolding binary64_def
    by (rule round_fl_eval [where e = 1 and d = 0]) (simp_all add: powr_minus_divide)
  then show ?thesis
    by (simp add: pow2_eval)
qed

lemma binary64_half: "binary64 (1 / 2) = Fin (1 / 2)"
proof -
  have "binary64 (1 / 2) = (if \<bar>of_int (2 ^ 52) * (1 / 2 ^ 53 :: real)\<bar> < 2 powr of_int (1023 + 1)
                      then Fin (of_int (2 ^ 52) * (1 / 2 ^ 53)) else if 0 < (1 / 2::real) then PInf else NInf)"
    unfolding binary64_def
    by (rule round_fl_eval [where e = "- 1" and d = 0]) (simp_all add: powr_minus_divide)
  then show ?thesis
    by (simp add: pow2_eval)
qed

lemma round_fl_Fin_bound:
  assumes "round_fl p emin emax x = Fin r"
  shows "\<bar>r\<bar> < 2 powr of_int (emax + 1)"
proof (cases "x = 0")
  case True
  with assms show ?thesis by (simp add: round_fl_def)
next
  case False
  with assms show ?thesis
    by (simp add: round_fl_nonzero Let_def split: if_splits)
qed

lemma binary64_overflow:
  assumes "2 ^ 1024 \<le> x"
  shows "binary64 x = PInf"
proof -
  have "2 powr of_int 1024 \<le> x"
    using assms by simp
  then have "(\<exists>r. round_fl 53 (- 1022) 1023 x = Fin r \<and> 2 powr of_int 1024 \<le> r)
               \<or> round_fl 53 (- 1022) 1023 x = PInf"
    by (rule round_fl_ge_pow) simp_all
  moreover have False if "round_fl 53 (- 1022) 1023 x = Fin r" "2 powr of_int 1024 \<le> r" for r
    using round_fl_Fin_bound [OF that(1)] that(2) by simp
  ultimately show ?thesis
    unfolding binary64_def by blast
qed

lemma binary64_exp_2000: "binary64 (exp 2000) = PInf"
proof -
  have "(2::real) \<le> exp 1"
    using exp_ge_add_one_self [of "1::real"] by simp
  then have "(2::real) ^ 2000 \<le> exp 1 ^ 2000"
    by (intro power_mono) simp_all
  also have "\<dots> = exp (2000::real)"
    using exp_of_nat_mult [of 2000 "1::real"] by simp
  finally have "(2::real) ^ 2000 \<le> exp 2000" .
  moreover have "(2::real) ^ 1024 \<le> 2 ^ 2000"
    by (intro power_increasing) simp_all
  ultimately have "(2::real) ^ 1024 \<le> exp 2000"
    by (rule order_trans [rotated])
  then show ?thesis by (rule binary64_overflow)
qed

lemma binary64_m1: "binary64 (- 1) = Fin (- 1)"
proof -
  have "binary64 (- 1) = (if \<bar>of_int (- (2 ^ 52)) * (1 / 2 ^ 52 :: real)\<bar> < 2 powr of_int (1023 + 1)
                      then Fin (of_int (- (2 ^ 52)) * (1 / 2 ^ 52)) else if 0 < (- 1::real) then PInf else NInf)"
    unfolding binary64_def
    by (rule round_fl_eval [where e = 0 and d = 0]) (simp_all add: powr_minus_divide)
  then show ?thesis
    by (simp add: pow2_eval)
qed

lemma binary64_m2001: "binary64 (- 2001) = Fin (- 2001)"
proof -
  have "binary64 (- 2001) = (if \<bar>of_int (- (2001 * 2 ^ 42)) * (1 / 2 ^ 42 :: real)\<bar> < 2 powr of_int (1023 + 1)
                      then Fin (of_int (- (2001 * 2 ^ 42)) * (1 / 2 ^ 42)) else if 0 < (- 2001::real) then PInf else NInf)"
    unfolding binary64_def
    by (rule round_fl_eval [where e = 10 and d = 0]) (simp_all add: powr_minus_divide)
  then show ?thesis
    by (simp add: pow2_eval)
qed

lemma binary64_m2000: "binary64 (- 2000) = Fin (- 2000)"
proof -
  have "binary64 (- 2000) = (if \<bar>of_int (- (2000 * 2 ^ 42)) * (1 / 2 ^ 42 :: real)\<bar> < 2 powr of_int (1023 + 1)
                      then Fin (of_int (- (2000 * 2 ^ 42)) * (1 / 2 ^ 42)) else if 0 < (- 2000::real) then PInf else NInf)"
    unfolding binary64_def
    by (rule round_fl_eval [where e = 10 and d = 0]) (simp_all add: powr_minus_divide)
  then show ?thesis
    by (simp add: pow2_eval)
qed

lemma binary64_0: "binary64 0 = Fin 0"
  by (simp add: binary64_def round_fl_def)

lemma sigmoid64_at_0: "fl_div (Fin 1) (fl_add (Fin 1) (fl_exp (fl_neg (Fin 0)))) = Fin (1 / 2)"
  by (simp add: binary64_1 binary64_2 binary64_half)

lemma sigmoid64_at_m2000:
  "fl_div (Fin 1) (fl_add (Fin 1) (fl_exp (fl_neg (Fin (- 2000))))) = Fin 0"
  by (simp add: binary64_exp_2000)


text \<open>
  Claim C7, as stated, fails at a finite score: with both weights 1 and the sample
  \<open>[1, 99]\<close> the score is 100, the exponential of -100 is below half a unit in the last
  place of 1, the sum rounds to 1, and \<open>forward\<close> returns exactly 1, which is not inside
  the open interval. (Of the exponential only this is used: its value at -100 is not
  negative and not above \<open>2 ^ - 54\<close>.)
\<close>

theorem forward64_reaches_one:
  "np_dot64 (np_T (Arr2 2 1 [[Fin 1], [Fin 1]])) (np_T (Arr2 1 2 [[Fin 1, Fin 99]]))
     = Inr (Arr2 1 1 [[Fin 100]])
   \<and> forward64 \<lparr>ndims = 1, W_init = ''ones'', W = Some (Arr2 2 1 [[Fin 1], [Fin 1]])\<rparr>
        (Arr2 1 2 [[Fin 1, Fin 99]])
     = Inr (Arr2 1 1 [[Fin 1]])"
proof -
  have D: "np_dot64 (np_T (Arr2 2 1 [[Fin 1], [Fin 1]])) (np_T (Arr2 1 2 [[Fin 1, Fin 99]]))
             = Inr (Arr2 1 1 [[Fin 100]])"
    by (simp add: col_def upt_conv_Cons dot64_example)
  have S: "sigmoid64 (Arr2 1 1 [[Fin 100]]) = Arr2 1 1 [[Fin 1]]"
    using sigmoid64_at_100 by (simp add: sigmoid64_def)
  show ?thesis
    by (simp only: forward64_def model.simps option.case D sum.case S simp_thms)
qed

text \<open>
  Claim C7, amended. Whenever the weights are set and all linear scores are finite,
  \<open>forward\<close> in binary64 returns one finite value per score and every value lies in the
  closed interval from 0 to 1. (Of the exponential only this is used: its result for a
  finite argument is not negative and not NaN.) Both ends are reached: the witness has the
  scores 100, 0 and -2000 and the values 1, 1/2 and 0.
\<close>

theorem forward64_range:
  assumes "W m = Some w" and "np_dot64 (np_T w) (np_T X) = Inr D"
    and "\<forall>d\<in>set (ravel D). \<exists>x. d = Fin x"
  shows "\<exists>P. forward64 m X = Inr P \<and> shape P = shape D
           \<and> (\<forall>p\<in>set (ravel P). \<exists>s. p = Fin s \<and> 0 \<le> s \<and> s \<le> 1)"
  using assms sigmoid64_range [OF assms(3)]
  by (simp add: forward64_def sigmoid64_def shape_map_ndarray)

theorem forward64_range_witness:
  "forward64 \<lparr>ndims = 1, W_init = ''ones'', W = Some (Arr2 2 1 [[Fin 1], [Fin 1]])\<rparr>
      (Arr2 3 2 [[Fin 1, Fin 99], [Fin 1, Fin (- 1)], [Fin 1, Fin (- 2001)]])
     = Inr (Arr2 1 3 [[Fin 1, Fin (1 / 2), Fin 0]])
   \<and> shape (Arr2 1 3 [[Fin 1, Fin (1 / 2), Fin 0]]) = [1, 3]
   \<and> (0 :: real) \<le> 1 \<and> (0 :: real) \<le> 1 / 2 \<and> (1 / 2 :: real) \<le> 1"
proof -
  let ?m = "\<lparr>ndims = 1, W_init = ''ones'', W = Some (Arr2 2 1 [[Fin 1], [Fin 1]])\<rparr>"
  let ?X = "Arr2 3 2 [[Fin 1, Fin 99], [Fin 1, Fin (- 1)], [Fin 1, Fin (- 2001)]]"
  have a: "W ?m = Some (Arr2 2 1 [[Fin 1], [Fin 1]])"
    by simp
  have b: "np_dot64 (np_T (Arr2 2 1 [[Fin 1], [Fin 1]])) (np_T ?X)
             = Inr (Arr2 1 3 [[Fin 100, Fin 0, Fin (- 2000)]])"
    by (simp add: col_def upt_conv_Cons dot64_def binary64_1 binary64_99 binary64_100
        binary64_m1 binary64_0 binary64_m2001 binary64_m2000)
  have c: "\<forall>d\<in>set (ravel (Arr2 1 3 [[Fin 100, Fin 0, Fin (- 2000)]])). \<exists>x. d = Fin x"
    by simp
  have S: "sigmoid64 (Arr2 1 3 [[Fin 100, Fin 0, Fin (- 2000)]])
             = Arr2 1 3 [[Fin 1, Fin (1 / 2), Fin 0]]"
    using sigmoid64_at_100 sigmoid64_at_0 sigmoid64_at_m2000 by (simp add: sigmoid64_def)
  have P: "forward64 ?m ?X = Inr (Arr2 1 3 [[Fin 1, Fin (1 / 2), Fin 0]])"
    by (simp only: forward64_def a option.case b sum.case S)
  from forward64_range [OF a b c] obtain P' where
    "forward64 ?m ?X = Inr P'" "shape P' = shape (Arr2 1 3 [[Fin 100, Fin 0, Fin (- 2000)]])"
    "\<forall>p\<in>set (ravel P'). \<exists>s. p = Fin s \<and> 0 \<le> s \<and> s \<le> 1"
    by blast
  with P show ?thesis by simp
qed

section \<open>Classification\<close>

lemma label_map:
  "map_ndarray (\<lambda>v::int. v - 1)
     (map_ndarray (\<lambda>b. (if b then 1 else 0) * 2) (map_ndarray (\<lambda>p::real. p > 1 / 2) P))
   = map_ndarray (\<lambda>p. if p > 1 / 2 then 1 else - 1) P"
  unfolding ndarray.map_comp by (rule ndarray.map_cong) simp_all

lemma classify_map:
  "classify m X = (case forward m X of Inl e \<Rightarrow> Inl e
                   | Inr P \<Rightarrow> Inr (map_ndarray (\<lambda>p. if p > 1 / 2 then 1 else - 1) P))"
  unfolding classify_def label_map ..

text \<open>
  Claim C4. Whenever \<open>forward\<close> returns the probabilities \<open>P\<close>, \<open>classify\<close> returns an array
  of the same shape that holds only the labels 1 and -1: the label is 1 exactly where the
  probability is greater than 0.5 and -1 everywhere else (so also at exactly 0.5).
\<close>

theorem classify_threshold:
  assumes "forward m X = Inr P"
  shows "\<exists>C. classify m X = Inr C \<and> shape C = shape P \<and> length (ravel C) = length (ravel P)
           \<and> (\<forall>i < length (ravel P). ravel C ! i = 1 \<longleftrightarrow> ravel P ! i > 1 / 2)
           \<and> (\<forall>i < length (ravel P). ravel C ! i = - 1 \<longleftrightarrow> \<not> ravel P ! i > 1 / 2)
           \<and> set (ravel C) \<subseteq> {1, - 1}"
  using assms
  by (auto simp: classify_map ravel_map_ndarray shape_map_ndarray)

theorem classify_threshold_witness:
  "forward \<lparr>ndims = 2, W_init = ''zeros'', W = Some (Arr2 3 1 [[0], [0], [1]])\<rparr>
      (Arr2 3 3 [[1, 0, 0], [1, 1, 1], [1, 1, - 1]])
     = Inr (Arr2 1 3 [[1 / 2, 1 / (1 + exp (- 1)), 1 / (1 + exp 1)]] :: real ndarray)
   \<and> (\<exists>C. classify \<lparr>ndims = 2, W_init = ''zeros'', W = Some (Arr2 3 1 [[0], [0], [1]])\<rparr>
             (Arr2 3 3 [[1, 0, 0], [1, 1, 1], [1, 1, - 1]]) = Inr C
          \<and> shape C = shape (Arr2 1 3 [[1 / 2, 1 / (1 + exp (- 1)), 1 / (1 + exp 1)]] :: real ndarray)
          \<and> length (ravel C)
              = length (ravel (Arr2 1 3 [[1 / 2, 1 / (1 + exp (- 1)), 1 / (1 + exp 1)]] :: real ndarray))
          \<and> (\<forall>i < length (ravel (Arr2 1 3 [[1 / 2, 1 / (1 + exp (- 1)), 1 / (1 + exp 1)]] :: real ndarray)).
                ravel C ! i = 1
                \<longleftrightarrow> ravel (Arr2 1 3 [[1 / 2, 1 / (1 + exp (- 1)), 1 / (1 + exp 1)]] :: real ndarray) ! i > 1 / 2)
          \<and> (\<forall>i < length (ravel (Arr2 1 3 [[1 / 2, 1 / (1 + exp (- 1)), 1 / (1 + exp 1)]] :: real ndarray)).
                ravel C ! i = - 1
                \<longleftrightarrow> \<not> ravel (Arr2 1 3 [[1 / 2, 1 / (1 + exp (- 1)), 1 / (1 + exp 1)]] :: real ndarray) ! i > 1 / 2)
          \<and> set (ravel C) \<subseteq> {1, - 1})"
proof -
  have fw: "forward \<lparr>ndims = 2, W_init = ''zeros'', W = Some (Arr2 3 1 [[0], [0], [1]])\<rparr>
              (Arr2 3 3 [[1, 0, 0], [1, 1, 1], [1, 1, - 1]])
            = Inr (Arr2 1 3 [[1 / 2, 1 / (1 + exp (- 1)), 1 / (1 + exp 1)]] :: real ndarray)"
    by (simp add: forward_def col_def dotp_def sigmoid_def np_exp_def upt_conv_Cons)
  show ?thesis
    using fw classify_threshold [OF fw] by (rule conjI)
qed

section \<open>The gradient\<close>

lemma length_contribs: "length ys = n \<Longrightarrow> length ds = n \<Longrightarrow> length (contribs ys ds) = n"
  by (simp add: contribs_def)

lemma contribs_nth:
  assumes "length ys = n" and "length rows = n" and "i < n"
  shows "contribs ys (map (dotp ws) rows) ! i = contrib_spec ws (rows ! i) (ys ! i)"
  using assms by (simp add: contribs_def contrib_spec_def term_spec_def score_spec_def)

lemma gradient_matrix:
  assumes "wf_arr (Arr2 n c rows)" and "length fs = n"
  shows "np_dot (np_T (Arr2 n c rows)) (np_T (Arr2 1 n [fs]))
           = Inr (Arr2 c 1 (map (\<lambda>j. [dotp (col j rows) fs]) [0..<c]))"
proof -
  have "col 0 (map (\<lambda>j. col j [fs]) [0..<n]) = map (\<lambda>j. fs ! j) [0..<n]"
    by (simp add: col_def)
  also have "\<dots> = fs"
    using assms(2) map_nth [of fs] by simp
  finally show ?thesis
    by (simp add: comp_def)
qed

lemma gradient_vector:
  assumes "wf_arr (Arr2 n c rows)" and "length fs = n"
  shows "np_dot (np_T (Arr2 n c rows)) (np_T (Arr1 fs))
           = Inr (Arr1 (map (\<lambda>j. dotp (col j rows) fs) [0..<c]))"
  using assms by (simp add: comp_def)

lemma dotp_nth:
  assumes "length xs = length ys"
  shows "dotp xs ys = sum_list (map (\<lambda>i. xs ! i * ys ! i) [0..<length xs])"
proof -
  have "map2 (*) xs ys = map (\<lambda>i. xs ! i * ys ! i) [0..<length xs]"
    by (rule nth_equalityI) (use assms in simp_all)
  then show ?thesis
    by (simp add: dotp_def)
qed

lemma gradient_entry:
  assumes "length rows = n" and "length ys = n"
  shows "dotp (col j rows) (contribs ys (map (dotp ws) rows))
           = sum_list (map (\<lambda>i. rows ! i ! j * contrib_spec ws (rows ! i) (ys ! i)) [0..<n])"
proof -
  have len: "length (col j rows) = length (contribs ys (map (dotp ws) rows))"
    using assms by (simp add: col_def length_contribs)
  have "map (\<lambda>i. col j rows ! i * contribs ys (map (dotp ws) rows) ! i) [0..<n]
          = map (\<lambda>i. rows ! i ! j * contrib_spec ws (rows ! i) (ys ! i)) [0..<n]"
    using assms by (intro map_cong refl) (simp add: col_def contribs_nth)
  moreover have "length (col j rows) = n"
    using assms by (simp add: col_def)
  ultimately show ?thesis
    using dotp_nth [OF len] by (simp only:)
qed

lemma backward_matrix:
  assumes "W m = Some (Arr2 c 1 wr)" and "wf_arr (Arr2 c 1 wr)"
    and "wf_arr (Arr2 n c rows)" and "length ys = n"
  shows "backward m (Arr1 ys) (Arr2 n c rows)
           = Inr (Arr2 c 1 (map (\<lambda>j. [dotp (col j rows) (contribs ys (map (dotp (concat wr)) rows))])
                              [0..<c]))"
proof -
  define ds where "ds = map (dotp (concat wr)) rows"
  define es where "es = map exp (map2 (*) (map uminus ys) ds)"
  have n: "length ds = n" "length es = n" "length (map uminus ys) = n"
    using assms(3,4) by (simp_all add: ds_def es_def)
  have D: "np_dot (np_T (Arr2 c 1 wr)) (np_T (Arr2 n c rows)) = Inr (Arr2 1 n [ds])"
    unfolding ds_def using assms(3,2) by (rule scores_matrix)
  have YD: "bcast (*) (map_ndarray uminus (Arr1 ys)) (Arr2 1 n [ds])
              = Inr (Arr2 1 n [map2 (*) (map uminus ys) ds])"
    unfolding ndarray.map by (rule bcast_vec_row) (use n in simp_all)
  have E: "np_exp (Arr2 1 n [map2 (*) (map uminus ys) ds]) = Arr2 1 n [es]"
    by (simp add: np_exp_def es_def)
  have N: "bcast (*) (map_ndarray uminus (Arr1 ys)) (Arr2 1 n [es])
              = Inr (Arr2 1 n [map2 (*) (map uminus ys) es])"
    unfolding ndarray.map by (rule bcast_vec_row) (use n in simp_all)
  have D': "map_ndarray (\<lambda>v. 1 + v) (Arr2 1 n [es]) = Arr2 1 n [map (\<lambda>v. 1 + v) es]"
    by simp
  have F: "bcast (/) (Arr2 1 n [map2 (*) (map uminus ys) es]) (Arr2 1 n [map (\<lambda>v. 1 + v) es])
              = Inr (Arr2 1 n [contribs ys ds])"
    unfolding contribs_def es_def [symmetric] by (rule bcast_row_row) (use n in simp_all)
  have G: "np_dot (np_T (Arr2 n c rows)) (np_T (Arr2 1 n [contribs ys ds]))
              = Inr (Arr2 c 1 (map (\<lambda>j. [dotp (col j rows) (contribs ys ds)]) [0..<c]))"
    using assms(3) n assms(4) by (intro gradient_matrix length_contribs)
  show ?thesis
    unfolding backward_def assms(1) option.case D sum.case YD E Let_def N D' F G
    unfolding ds_def ..
qed

lemma backward_vector:
  assumes "W m = Some (Arr1 ws)" and "length ws = c"
    and "wf_arr (Arr2 n c rows)" and "length ys = n"
  shows "backward m (Arr1 ys) (Arr2 n c rows)
           = Inr (Arr1 (map (\<lambda>j. dotp (col j rows) (contribs ys (map (dotp ws) rows))) [0..<c]))"
proof -
  define ds where "ds = map (dotp ws) rows"
  define es where "es = map exp (map2 (*) (map uminus ys) ds)"
  have n: "length ds = n" "length es = n" "length (map uminus ys) = n"
    using assms(3,4) by (simp_all add: ds_def es_def)
  have D: "np_dot (np_T (Arr1 ws)) (np_T (Arr2 n c rows)) = Inr (Arr1 ds)"
    unfolding ds_def using assms(3,2) by (rule scores_vector)
  have YD: "bcast (*) (map_ndarray uminus (Arr1 ys)) (Arr1 ds)
              = Inr (Arr1 (map2 (*) (map uminus ys) ds))"
    unfolding ndarray.map by (rule bcast_vec_vec) (use n in simp_all)
  have E: "np_exp (Arr1 (map2 (*) (map uminus ys) ds)) = Arr1 es"
    by (simp add: np_exp_def es_def)
  have N: "bcast (*) (map_ndarray uminus (Arr1 ys)) (Arr1 es)
              = Inr (Arr1 (map2 (*) (map uminus ys) es))"
    unfolding ndarray.map by (rule bcast_vec_vec) (use n in simp_all)
  have D': "map_ndarray (\<lambda>v. 1 + v) (Arr1 es) = Arr1 (map (\<lambda>v. 1 + v) es)"
    by simp
  have F: "bcast (/) (Arr1 (map2 (*) (map uminus ys) es)) (Arr1 (map (\<lambda>v. 1 + v) es))
              = Inr (Arr1 (contribs ys ds))"
    unfolding contribs_def es_def [symmetric] by (rule bcast_vec_vec) (use n in simp_all)
  have G: "np_dot (np_T (Arr2 n c rows)) (np_T (Arr1 (contribs ys ds)))
              = Inr (Arr1 (map (\<lambda>j. dotp (col j rows) (contribs ys ds)) [0..<c]))"
    using assms(3) n assms(4) by (intro gradient_vector length_contribs)
  show ?thesis
    unfolding backward_def assms(1) option.case D sum.case YD E Let_def N D' F G
    unfolding ds_def ..
qed

lemma backward_result:
  assumes "W m = Some w" and "weights_fit w c" and "wf_arr (Arr2 n c rows)" and "length ys = n"
  shows "\<exists>G. backward m (Arr1 ys) (Arr2 n c rows) = Inr G
           \<and> ravel G = gradient_spec (ravel w) rows ys
           \<and> length (ravel G) = c
           \<and> shape G = shape w"
proof (cases w)
  case (Arr0 a)
  with assms(2) show ?thesis by simp
next
  case (Arr1 ws)
  with assms(2) have len: "length ws = c" by simp
  have rows: "length rows = n" using assms(3) by simp
  have "backward m (Arr1 ys) (Arr2 n c rows)
          = Inr (Arr1 (map (\<lambda>j. dotp (col j rows) (contribs ys (map (dotp ws) rows))) [0..<c]))"
    using assms(1) [unfolded Arr1] len assms(3,4) by (rule backward_vector)
  then show ?thesis
    using Arr1 len rows by (simp add: gradient_spec_def gradient_entry [OF rows assms(4)])
next
  case (Arr2 r k wr)
  with assms(2) have w: "w = Arr2 c 1 wr" and wfw: "wf_arr (Arr2 c 1 wr)"
    by auto
  have len: "length (concat wr) = c"
    using wfw by (simp add: column_rows)
  have rows: "length rows = n" using assms(3) by simp
  have "backward m (Arr1 ys) (Arr2 n c rows)
          = Inr (Arr2 c 1 (map (\<lambda>j. [dotp (col j rows) (contribs ys (map (dotp (concat wr)) rows))])
                            [0..<c]))"
    using assms(1) [unfolded w] wfw assms(3,4) by (rule backward_matrix)
  then show ?thesis
    using w len rows
    by (simp add: gradient_spec_def gradient_entry [OF rows assms(4)] comp_def)
qed

text \<open>
  Claim C1. When the weights fit the \<open>c\<close> columns of the feature matrix and there is one
  label per sample, \<open>backward\<close> returns an array of the shape of the weights whose \<open>c\<close>
  elements are the gradient of the specification: per sample the score \<open>D = dot(W, x)\<close>, the
  term \<open>E = exp(-y * D)\<close> and the contribution \<open>F = (-y * E) / (1 + E)\<close>, and as component \<open>j\<close>
  the sum over the samples of \<open>X[i][j] * F[i]\<close>. Under the length invariant these are
  \<open>ndims + 1\<close> elements. The labels need not be 1 or -1 for this.
\<close>

theorem backward_gradient:
  assumes "W m = Some w" and "weights_fit w c" and "wf_arr (Arr2 n c rows)" and "length ys = n"
  shows "\<exists>G. backward m (Arr1 ys) (Arr2 n c rows) = Inr G
           \<and> ravel G = gradient_spec (ravel w) rows ys
           \<and> length (ravel G) = c
           \<and> shape G = shape w
           \<and> (W_inv m \<longrightarrow> int (length (ravel G)) = ndims m + 1)"
  using backward_result [OF assms] assms(1) weights_fit_len [OF assms(2)]
  by (auto simp: W_inv_def)

theorem backward_gradient_witness:
  "\<exists>G. backward \<lparr>ndims = 2, W_init = ''zeros'', W = Some (Arr2 3 1 [[0], [0], [0]])\<rparr>
          (Arr1 [1, - 1]) (Arr2 2 3 [[1, 0, 0], [1, 1, 1]]) = Inr G
      \<and> ravel G = [0, 1 / 2, 1 / 2]
      \<and> length (ravel G) = 3
      \<and> shape G = [3, 1]
      \<and> int (length (ravel G)) = 2 + 1"
proof -
  have a: "W \<lparr>ndims = 2, W_init = ''zeros'', W = Some (Arr2 3 1 [[0], [0], [0]])\<rparr>
             = Some (Arr2 3 1 [[0], [0], [0]])"
    by simp
  have b: "weights_fit (Arr2 3 1 [[0], [0], [0]]) 3"
    by simp
  have c: "wf_arr (Arr2 2 3 [[1, 0, 0], [1, 1, 1 :: real]])"
    by simp
  have d: "length [1, - 1 :: real] = 2"
    by simp
  have e: "W_inv (\<lparr>ndims = 2, W_init = ''zeros'', W = Some (Arr2 3 1 [[0], [0], [0]])\<rparr> :: real model)"
    by (simp add: W_inv_def)
  show ?thesis
    using e backward_gradient [OF a b c d]
    by (simp add: gradient_spec_def contrib_spec_def term_spec_def score_spec_def dotp_def
        upt_conv_Cons)
qed

section \<open>Training\<close>

lemma length_descent_spec: "length (descent_spec lr rows ys ws) = length ws"
  by (simp add: descent_spec_def gradient_spec_def)

lemma W_update_same: "W m = Some w \<Longrightarrow> m\<lparr>W := Some w\<rparr> = m"
  by (cases m) simp

lemma isub_matrix:
  assumes "wf_arr (Arr2 c 1 wr)" and "length gs = c"
  shows "isub (Arr2 c 1 wr) (map_ndarray (\<lambda>g. g * lr) (Arr2 c 1 (map (\<lambda>g. [g]) gs)))
           = Inr (Arr2 c 1 (map (\<lambda>v. [v]) (map2 (\<lambda>w g. w - g * lr) (concat wr) gs)))"
proof -
  from assms(1) have wr: "wr = map (\<lambda>v. [v]) (concat wr)" and len: "length (concat wr) = c"
    by (simp_all add: column_rows)
  have "isub (Arr2 c 1 (map (\<lambda>v. [v]) (concat wr)))
             (map_ndarray (\<lambda>g. g * lr) (Arr2 c 1 (map (\<lambda>g. [g]) gs)))
          = Inr (Arr2 c 1 (map (\<lambda>v. [v]) (map2 (\<lambda>w g. w - g * lr) (concat wr) gs)))"
    using len assms(2)
    by (simp add: isub_def bcast2_def bdim_def stretch_def zip_map_map comp_def split_def)
  with wr show ?thesis by simp
qed

lemma isub_vector:
  assumes "length ws = c" and "length gs = c"
  shows "isub (Arr1 ws) (map_ndarray (\<lambda>g. g * lr) (Arr1 gs))
           = Inr (Arr1 (map2 (\<lambda>w g. w - g * lr) ws gs))"
  using assms
  by (simp add: isub_def bdim_def stretch_def zip_map2 comp_def split_def)

lemma descent_step:
  assumes "W m = Some w" and "weights_fit w c" and "wf_arr (Arr2 n c rows)" and "length ys = n"
  shows "\<exists>G w'. backward m (Arr1 ys) (Arr2 n c rows) = Inr G
           \<and> isub w (map_ndarray (\<lambda>g. g * lr) G) = Inr w'
           \<and> weights_fit w' c \<and> shape w' = shape w
           \<and> ravel w' = descent_spec lr rows ys (ravel w)"
proof -
  from backward_result [OF assms] obtain G where
    G: "backward m (Arr1 ys) (Arr2 n c rows) = Inr G"
    and rG: "ravel G = gradient_spec (ravel w) rows ys"
    and lG: "length (ravel G) = c" and sG: "shape G = shape w"
    by blast
  have upd: "map2 (\<lambda>w g. w - g * lr) (ravel w) (ravel G) = descent_spec lr rows ys (ravel w)"
    by (simp add: descent_spec_def rG mult.commute)
  show ?thesis
  proof (cases w)
    case (Arr0 a)
    with assms(2) show ?thesis by simp
  next
    case (Arr1 ws)
    with assms(2) have len: "length ws = c" by simp
    from sG Arr1 obtain gs where Gv: "G = Arr1 gs"
      by (cases G) auto
    with lG have lgs: "length gs = c" by simp
    have "isub w (map_ndarray (\<lambda>g. g * lr) G) = Inr (Arr1 (map2 (\<lambda>w g. w - g * lr) ws gs))"
      unfolding Arr1 Gv using len lgs by (rule isub_vector)
    with G upd Arr1 Gv len lgs show ?thesis by (auto simp: length_descent_spec)
  next
    case (Arr2 r k wr)
    with assms(2) have w: "w = Arr2 c 1 wr" and wfw: "wf_arr (Arr2 c 1 wr)"
      by auto
    have G': "backward m (Arr1 ys) (Arr2 n c rows)
          = Inr (Arr2 c 1 (map (\<lambda>g. [g])
                   (map (\<lambda>j. dotp (col j rows) (contribs ys (map (dotp (concat wr)) rows))) [0..<c])))"
      using backward_matrix [OF assms(1) [unfolded w] wfw assms(3,4)] by (simp add: comp_def)
    define gs where "gs = map (\<lambda>j. dotp (col j rows) (contribs ys (map (dotp (concat wr)) rows))) [0..<c]"
    have Gm: "G = Arr2 c 1 (map (\<lambda>g. [g]) gs)"
      using G G' by (simp add: gs_def)
    have lgs: "length gs = c" by (simp add: gs_def)
    have rgs: "ravel G = gs" by (simp add: Gm comp_def)
    have "isub w (map_ndarray (\<lambda>g. g * lr) G)
            = Inr (Arr2 c 1 (map (\<lambda>v. [v]) (map2 (\<lambda>w g. w - g * lr) (concat wr) gs)))"
      unfolding w Gm using wfw lgs by (rule isub_matrix)
    moreover have "length (concat wr) = c"
      using wfw by (simp add: column_rows)
    ultimately show ?thesis
      using G upd w rgs lgs by (auto simp: comp_def list_all_iff length_descent_spec)
  qed
qed

lemma fit_loop_descent:
  assumes "W m = Some w" and "weights_fit w c" and "wf_arr (Arr2 n c rows)" and "length ys = n"
  shows "\<exists>w'. fit_loop (Arr1 ys) (Arr2 n c rows) lr js m out
                 = (None, m\<lparr>W := Some w'\<rparr>, out @ map Print_iter js)
            \<and> weights_fit w' c \<and> shape w' = shape w
            \<and> ravel w' = (descent_spec lr rows ys ^^ length js) (ravel w)"
  using assms(1,2)
proof (induction js arbitrary: m w out)
  case Nil
  then show ?case by (intro exI [of _ w]) (simp add: W_update_same)
next
  case (Cons j js)
  from descent_step [OF Cons.prems assms(3,4), of lr] obtain G w1 where
    G: "backward m (Arr1 ys) (Arr2 n c rows) = Inr G"
    and w1: "isub w (map_ndarray (\<lambda>g. g * lr) G) = Inr w1"
    and fit1: "weights_fit w1 c" and sh1: "shape w1 = shape w"
    and r1: "ravel w1 = descent_spec lr rows ys (ravel w)"
    by blast
  have "W (m\<lparr>W := Some w1\<rparr>) = Some w1" by simp
  from Cons.IH [OF this fit1, of "out @ [Print_iter j]"] obtain w' where
    loop: "fit_loop (Arr1 ys) (Arr2 n c rows) lr js (m\<lparr>W := Some w1\<rparr>) (out @ [Print_iter j])
             = (None, m\<lparr>W := Some w'\<rparr>, (out @ [Print_iter j]) @ map Print_iter js)"
    and fit': "weights_fit w' c" and sh': "shape w' = shape w1"
    and r': "ravel w' = (descent_spec lr rows ys ^^ length js) (ravel w1)"
    by auto
  have "fit_loop (Arr1 ys) (Arr2 n c rows) lr (j # js) m out
          = (None, m\<lparr>W := Some w'\<rparr>, out @ map Print_iter (j # js))"
    using G w1 Cons.prems(1) loop by simp
  moreover have "ravel w' = (descent_spec lr rows ys ^^ length (j # js)) (ravel w)"
    using r' r1 by (simp add: funpow_swap1)
  ultimately show ?case
    using fit' sh' sh1 by auto
qed

text \<open>
  Claim C2. When the weights fit the feature matrix and there is one label per sample,
  \<open>fit\<close> returns normally after exactly \<open>max_iters\<close> iterations (none when \<open>max_iters\<close> is
  negative): it prints the counters \<open>0, \<dots>, max_iters - 1\<close>, changes no field but \<open>W\<close>, keeps
  the shape of \<open>W\<close>, and the final weights are the result of applying the update
  \<open>W - learn_rate * G\<close>, with \<open>G\<close> the gradient at the current weights, \<open>max_iters\<close> times
  to the initial weights.
\<close>

theorem fit_gradient_descent:
  assumes "W m = Some w" and "weights_fit w c" and "wf_arr (Arr2 n c rows)" and "length ys = n"
  shows "\<exists>w'. fit m (Arr1 ys) (Arr2 n c rows) learn_rate max_iters
                 = (None, m\<lparr>W := Some w'\<rparr>, map (\<lambda>i. Print_iter (int i)) [0..<nat max_iters])
            \<and> shape w' = shape w
            \<and> ravel w' = (descent_spec learn_rate rows ys ^^ nat max_iters) (ravel w)"
  using fit_loop_descent [OF assms, of learn_rate "range_py max_iters" "[]"]
  by (auto simp: fit_def range_py_def)

theorem fit_gradient_descent_witness:
  "\<exists>w'. fit \<lparr>ndims = 2, W_init = ''zeros'', W = Some (Arr2 3 1 [[0], [0], [0]])\<rparr>
           (Arr1 [1, - 1]) (Arr2 2 3 [[1, 0, 0], [1, 1, 1]]) (1 / 10) 1
         = (None, \<lparr>ndims = 2, W_init = ''zeros'', W = Some w'\<rparr>, [Print_iter 0])
      \<and> shape w' = [3, 1]
      \<and> ravel w' = [0, - 1 / 20, - 1 / 20]"
proof -
  have a: "W \<lparr>ndims = 2, W_init = ''zeros'', W = Some (Arr2 3 1 [[0], [0], [0]])\<rparr>
             = Some (Arr2 3 1 [[0], [0], [0]])"
    by simp
  have b: "weights_fit (Arr2 3 1 [[0], [0], [0]]) 3"
    by simp
  have c: "wf_arr (Arr2 2 3 [[1, 0, 0], [1, 1, 1 :: real]])"
    by simp
  have d: "length [1, - 1 :: real] = 2"
    by simp
  show ?thesis
    using fit_gradient_descent [OF a b c d, of "1 / 10" 1]
    by (simp add: descent_spec_def gradient_spec_def contrib_spec_def term_spec_def
        score_spec_def dotp_def upt_conv_Cons)
qed

text \<open>
  Claim C10. When \<open>max_iters\<close> is zero or negative, \<open>fit\<close> runs no iteration: it returns
  normally, prints nothing, and the object (its weights and its other fields) is the one
  it was given.
\<close>

theorem fit_nonpositive_iters:
  "max_iters \<le> 0 \<Longrightarrow> fit m Y_true X learn_rate max_iters = (None, m, [])"
  by (simp add: fit_def range_py_def)

theorem fit_nonpositive_iters_witness:
  "(-3::int) \<le> 0
   \<and> fit \<lparr>ndims = 1, W_init = ''ones'', W = Some (Arr2 2 1 [[1], [1]])\<rparr>
        (Arr1 [1]) (Arr2 1 2 [[1, 5]]) (1 / 10) (-3)
      = (None, \<lparr>ndims = 1, W_init = ''ones'', W = Some (Arr2 2 1 [[1], [1]])\<rparr>, [])"
proof -
  have le: "(-3::int) \<le> 0" by simp
  show ?thesis
    using le
      fit_nonpositive_iters [OF le,
        of "\<lparr>ndims = 1, W_init = ''ones'', W = Some (Arr2 2 1 [[1], [1]])\<rparr>"
           "Arr1 [1]" "Arr2 1 2 [[1, 5]]" "1 / 10"]
    by simp
qed

section \<open>The length invariant\<close>

lemma fit_loop_W_inv:
  "W_inv m \<Longrightarrow> fit_loop Y X lr js m out = (e, m', out') \<Longrightarrow> W_inv m'"
proof (induction js arbitrary: m out)
  case Nil
  then show ?case by simp
next
  case (Cons j js)
  show ?case
  proof (cases "backward m Y X")
    case (Inl err)
    with Cons.prems show ?thesis by simp
  next
    case (Inr G)
    from Cons.prems(1) obtain w where w: "W m = Some w"
      by (auto simp: W_inv_def split: option.splits)
    show ?thesis
    proof (cases "isub w (map_ndarray (\<lambda>g. g * lr) G)")
      case (Inl err)
      with Cons.prems Inr w show ?thesis by simp
    next
      case step: (Inr w')
      have "len_arr w' = len_arr w"
        using isub_shape [OF step] by (rule len_arr_shape)
      with Cons.prems(1) w have "W_inv (m\<lparr>W := Some w'\<rparr>)"
        by (auto simp: W_inv_def split: option.splits)
      moreover have "fit_loop Y X lr js (m\<lparr>W := Some w'\<rparr>) (out @ [Print_iter j]) = (e, m', out')"
        using Cons.prems(2) Inr w step by simp
      ultimately show ?thesis by (rule Cons.IH)
    qed
  qed
qed

lemma init_W_inv:
  assumes "wi \<in> {''zeros'', ''ones'', ''uniform'', ''gaussian''}"
    and "init u g nd wi = Inr (m, out)"
  shows "W_inv m"
  using assms
  by (auto simp: init_def Let_def with_W_def np_zeros_def np_ones_def np_random_def W_inv_def
      split: if_splits)

lemma load_model_W_inv:
  assumes "load_model m p fs = Inr (m', out)"
  shows "W_inv m' \<longleftrightarrow> (\<exists>vs. files fs p = Some vs \<and> int (length vs) = ndims m + 1)"
  using assms
  by (auto simp: load_model_def np_fromfile_def W_inv_def split: option.splits)

text \<open>
  Claim C8, as stated, fails for \<open>load_model\<close>: a model of \<open>ndims = 2\<close> that loads a file
  holding a single value ends with a weight array of length 1.
\<close>

theorem load_model_breaks_W_length:
  "W_inv (\<lparr>ndims = 2, W_init = ''zeros'', W = Some (Arr2 3 1 [[0], [0], [0]])\<rparr> :: real model)
   \<and> load_model (\<lparr>ndims = 2, W_init = ''zeros'', W = Some (Arr2 3 1 [[0], [0], [0]])\<rparr> :: real model)
        ''w.bin'' \<lparr>files = [''w.bin'' \<mapsto> [1 / 2]], writable = (\<lambda>p. True)\<rparr>
      = Inr (\<lparr>ndims = 2, W_init = ''zeros'', W = Some (Arr1 [1 / 2])\<rparr>, [Print_loaded ''w.bin''])
   \<and> \<not> W_inv (\<lparr>ndims = 2, W_init = ''zeros'', W = Some (Arr1 [1 / 2])\<rparr> :: real model)"
  by (simp add: W_inv_def load_model_def np_fromfile_def)

text \<open>
  Claim C8, amended. \<open>W\<close> has length \<open>ndims + 1\<close> after every construction with one of the
  four named policies that returns, and \<open>fit\<close> preserves this whatever its outcome.
  (\<open>save_model\<close> only reads the object.) After \<open>load_model\<close>, \<open>W\<close> has length \<open>ndims + 1\<close>
  exactly when the file holds \<open>ndims + 1\<close> values; there is no length check.
\<close>

theorem W_length_invariant:
  "(wi \<in> {''zeros'', ''ones'', ''uniform'', ''gaussian''} \<and> init u g nd wi = Inr (m0, out0)
      \<longrightarrow> W_inv m0)
   \<and> (W_inv m \<and> fit m Y_true X learn_rate max_iters = (e, m1, out1) \<longrightarrow> W_inv m1)
   \<and> (load_model m p fs = Inr (m2, out2)
      \<longrightarrow> (W_inv m2 \<longleftrightarrow> (\<exists>vs. files fs p = Some vs \<and> int (length vs) = ndims m + 1)))"
  using init_W_inv [of wi u g nd m0 out0]
    fit_loop_W_inv [of m Y_true X learn_rate "range_py max_iters" "[]" e m1 out1]
    load_model_W_inv [of m p fs m2 out2]
  by (simp add: fit_def)

theorem W_length_invariant_witness:
  "W_inv (\<lparr>ndims = 2, W_init = ''zeros'', W = Some (Arr2 3 1 [[0], [0], [0]])\<rparr> :: real model)
   \<and> W_inv (\<lparr>ndims = 2, W_init = ''zeros'', W = Some (Arr2 3 1 [[0], [- 1 / 20], [- 1 / 20]])\<rparr> :: real model)
   \<and> W_inv (\<lparr>ndims = 2, W_init = ''zeros'', W = Some (Arr1 [1, 2, 3])\<rparr> :: real model)"
proof -
  let ?m = "\<lparr>ndims = 2, W_init = ''zeros'', W = Some (Arr2 3 1 [[0], [0], [0]])\<rparr> :: real model"
  let ?m1 = "\<lparr>ndims = 2, W_init = ''zeros'', W = Some (Arr2 3 1 [[0], [- 1 / 20], [- 1 / 20]])\<rparr>
               :: real model"
  let ?fs = "\<lparr>files = [''w.bin'' \<mapsto> [1, 2, 3]], writable = (\<lambda>p. True)\<rparr> :: real filesys"
  have i: "init (\<lambda>i. 0) (\<lambda>i. 0) 2 ''zeros'' = Inr (?m, [])"
    by (simp add: init_def with_W_def np_zeros_def numeral_3_eq_3)
  have f: "fit ?m (Arr1 [1, - 1]) (Arr2 2 3 [[1, 0, 0], [1, 1, 1]]) (1 / 10) 1
             = (None, ?m1, [Print_iter 0])"
    by (simp add: fit_def range_py_def isub_def backward_def col_def dotp_def np_exp_def
        upt_conv_Cons bcast2_def bdim_def stretch_def)
  have l: "load_model ?m ''w.bin'' ?fs
             = Inr (\<lparr>ndims = 2, W_init = ''zeros'', W = Some (Arr1 [1, 2, 3])\<rparr>, [Print_loaded ''w.bin''])"
    by (simp add: load_model_def np_fromfile_def)
  show ?thesis
    using i f l
      W_length_invariant [where wi = "''zeros''" and u = "\<lambda>i. 0" and g = "\<lambda>i. 0" and nd = 2
        and ?m0.0 = ?m and ?out0.0 = "[]" and m = ?m and Y_true = "Arr1 [1, - 1]"
        and X = "Arr2 2 3 [[1, 0, 0], [1, 1, 1]]" and learn_rate = "1 / 10" and max_iters = 1
        and e = None and ?m1.0 = ?m1 and ?out1.0 = "[Print_iter 0]"
        and p = "''w.bin''" and fs = ?fs
        and ?m2.0 = "\<lparr>ndims = 2, W_init = ''zeros'', W = Some (Arr1 [1, 2, 3])\<rparr>"
        and ?out2.0 = "[Print_loaded ''w.bin'']"]
    by simp
qed

end
